theory Spec2Isabelle
  imports Main "HOL-Library.Char_ord" "HOL-Library.List_Lexorder" "HOL-Library.Multiset"
begin

section \<open>Python strings\<close>

text \<open>
  A Python \<open>str\<close> is modelled as a \<^typ>\<open>string\<close>. The model covers ASCII text: the
  character tests below are Python's tests restricted to code points below 128, and a
  non-ASCII byte is neither whitespace, a digit nor a cased letter.
\<close>

definition is_space :: "char \<Rightarrow> bool" where
  \<comment> \<open>\<open>str.isspace\<close>, the default of \<open>str.strip\<close> and the regular expression class \<open>\s\<close>:
      tab, line feed, vertical tab, form feed, carriage return, the separators 28..31, space.\<close>
  "is_space c = (let n = (of_char c :: nat) in (9 \<le> n \<and> n \<le> 13) \<or> (28 \<le> n \<and> n \<le> 32))"

definition is_digit :: "char \<Rightarrow> bool" where
  "is_digit c = (let n = (of_char c :: nat) in 48 \<le> n \<and> n \<le> 57)"

definition digit_val :: "char \<Rightarrow> nat" where
  "digit_val c = of_char c - 48"

definition is_lower :: "char \<Rightarrow> bool" where
  \<comment> \<open>the class \<open>[a-z]\<close>\<close>
  "is_lower c = (let n = (of_char c :: nat) in 97 \<le> n \<and> n \<le> 122)"

definition lower_char :: "char \<Rightarrow> char" where
  "lower_char c = (let n = (of_char c :: nat) in if 65 \<le> n \<and> n \<le> 90 then char_of (n + 32) else c)"

definition lower :: "string \<Rightarrow> string" where
  \<comment> \<open>\<open>str.lower\<close>\<close>
  "lower s = map lower_char s"

definition lstrip_chars :: "(char \<Rightarrow> bool) \<Rightarrow> string \<Rightarrow> string" where
  "lstrip_chars p s = dropWhile p s"

definition rstrip_chars :: "(char \<Rightarrow> bool) \<Rightarrow> string \<Rightarrow> string" where
  "rstrip_chars p s = rev (dropWhile p (rev s))"

definition strip_chars :: "(char \<Rightarrow> bool) \<Rightarrow> string \<Rightarrow> string" where
  "strip_chars p s = rstrip_chars p (lstrip_chars p s)"

definition strip :: "string \<Rightarrow> string" where
  \<comment> \<open>\<open>s.strip()\<close>\<close>
  "strip s = strip_chars is_space s"

definition strip_of :: "string \<Rightarrow> string \<Rightarrow> string" where
  \<comment> \<open>\<open>s.strip(chars)\<close>\<close>
  "strip_of chars s = strip_chars (\<lambda>c. c \<in> set chars) s"

definition lstrip_of :: "string \<Rightarrow> string \<Rightarrow> string" where
  \<comment> \<open>\<open>s.lstrip(chars)\<close>\<close>
  "lstrip_of chars s = lstrip_chars (\<lambda>c. c \<in> set chars) s"

definition isspace :: "string \<Rightarrow> bool" where
  \<comment> \<open>\<open>s.isspace()\<close>: at least one character, and all of them whitespace\<close>
  "isspace s = (s \<noteq> [] \<and> list_all is_space s)"

fun split_on :: "char \<Rightarrow> string \<Rightarrow> string list" where
  \<comment> \<open>\<open>s.split(sep)\<close> for a separator of one character: never the empty list\<close>
  "split_on sep [] = [[]]"
| "split_on sep (c # cs) =
     (if c = sep then [] # split_on sep cs
      else (case split_on sep cs of
              [] \<Rightarrow> [[c]]
            | p # ps \<Rightarrow> (c # p) # ps))"

fun is_prefix :: "string \<Rightarrow> string \<Rightarrow> bool" where
  "is_prefix [] s = True"
| "is_prefix (p # ps) [] = False"
| "is_prefix (p # ps) (c # cs) = (p = c \<and> is_prefix ps cs)"

fun replace :: "string \<Rightarrow> string \<Rightarrow> string \<Rightarrow> string" where
  \<comment> \<open>\<open>s.replace(old, new)\<close> for a non-empty \<open>old\<close>: the occurrences from the left, not
      overlapping\<close>
  "replace old new [] = []"
| "replace old new (c # cs) =
     (if old \<noteq> [] \<and> is_prefix old (c # cs)
      then new @ replace old new (drop (length old) (c # cs))
      else c # replace old new cs)"

fun int_digits :: "int \<Rightarrow> bool \<Rightarrow> string \<Rightarrow> int option" where
  \<comment> \<open>decimal digits, a single underscore allowed between two digits\<close>
  "int_digits acc prev_digit [] = (if prev_digit then Some acc else None)"
| "int_digits acc prev_digit (c # cs) =
     (if is_digit c then int_digits (acc * 10 + int (digit_val c)) True cs
      else if c = CHR ''_'' \<and> prev_digit then int_digits acc False cs
      else None)"

definition is_int_space :: "char \<Rightarrow> bool" where
  \<comment> \<open>the whitespace that \<open>int\<close> skips around the number in an ASCII string: tab, line feed,
      vertical tab, form feed, carriage return, space (not the separators 28..31)\<close>
  "is_int_space c = (let n = (of_char c :: nat) in (9 \<le> n \<and> n \<le> 13) \<or> n = 32)"

definition over_digit_limit :: "nat \<Rightarrow> nat \<Rightarrow> bool" where
  \<comment> \<open>The interpreter's limit on the digits of a decimal string that \<open>int\<close> converts:
      \<open>max_str_digits\<close> is \<open>sys.get_int_max_str_digits()\<close>, 4300 by default, 0 when there is no
      limit (also for an interpreter that has none). The limit is not looked at for 640
      digits or fewer.\<close>
  "over_digit_limit max_str_digits n = (max_str_digits > 0 \<and> n > max_str_digits \<and> n > 640)"

definition py_int :: "nat \<Rightarrow> string \<Rightarrow> int option" where
  \<comment> \<open>\<open>int(s)\<close>: surrounding whitespace, an optional sign, decimal digits, no more digits than
      the interpreter's limit; \<open>None\<close> is \<open>ValueError\<close>\<close>
  "py_int max_str_digits s =
     (let t = strip_chars is_int_space s;
          body = (case t of
                    [] \<Rightarrow> []
                  | c # cs \<Rightarrow> if c = CHR ''-'' \<or> c = CHR ''+'' then cs else t)
      in if over_digit_limit max_str_digits (length (filter is_digit body)) then None
         else (case t of
                 [] \<Rightarrow> None
               | c # cs \<Rightarrow>
                   if c = CHR ''-'' then map_option uminus (int_digits 0 False cs)
                   else if c = CHR ''+'' then int_digits 0 False cs
                   else int_digits 0 False (c # cs)))"

section \<open>Markup trees\<close>

text \<open>
  The parsers read markup through BeautifulSoup. The model starts from the parsed tree: a
  node is a string of text or a tag with its name and children (attributes play no part in the
  parsers). The queries below are the ones the parsers call.
\<close>

datatype node = Text string | Tag string "node list"

fun strings :: "node \<Rightarrow> string list" where
  \<comment> \<open>the strings below a node, in document order\<close>
  "strings (Text s) = [s]"
| "strings (Tag name kids) = concat (map strings kids)"

definition self_tag :: "node \<Rightarrow> node list" where
  "self_tag n = (case n of Text s \<Rightarrow> [] | Tag name kids \<Rightarrow> [n])"

fun descendant_tags :: "node \<Rightarrow> node list" where
  \<comment> \<open>the tags strictly below a node, in document order\<close>
  "descendant_tags (Text s) = []"
| "descendant_tags (Tag name kids) = concat (map (\<lambda>k. self_tag k @ descendant_tags k) kids)"

definition tag_name :: "node \<Rightarrow> string" where
  "tag_name n = (case n of Text s \<Rightarrow> [] | Tag name kids \<Rightarrow> name)"

definition find_all :: "string \<Rightarrow> node \<Rightarrow> node list" where
  \<comment> \<open>\<open>node.find_all(name)\<close>\<close>
  "find_all name n = filter (\<lambda>t. tag_name t = name) (descendant_tags n)"

definition find :: "string \<Rightarrow> node \<Rightarrow> node option" where
  \<comment> \<open>\<open>node.find(name)\<close>: the first such tag, or \<open>None\<close>\<close>
  "find name n = (case find_all name n of [] \<Rightarrow> None | t # ts \<Rightarrow> Some t)"

definition get_text :: "node \<Rightarrow> string" where
  \<comment> \<open>\<open>node.get_text()\<close>\<close>
  "get_text n = concat (strings n)"

definition get_text_strip :: "node \<Rightarrow> string" where
  \<comment> \<open>\<open>node.get_text(strip=True)\<close>: every string stripped, the empty ones left out, joined
      with no separator\<close>
  "get_text_strip n = concat (filter (\<lambda>s. s \<noteq> []) (map strip (strings n)))"

section \<open>Character references (\<open>html.unescape\<close>)\<close>

text \<open>
  \<open>html.unescape\<close> replaces every match of
  \<^verbatim>\<open>&(#[0-9]+;?|#[xX][0-9a-fA-F]+;?|[^\t\n\f <&#;]{1,32};?)\<close>.
  Its two tables are parameters of the model: \<open>html5\<close> is the table of named references
  (\<open>html.entities.html5\<close>, keyed by the name with or without its semicolon), and
  \<open>charref\<close> gives the text a numeric reference with a given number stands for. The number
  of a decimal reference is read with \<open>int\<close>, which raises \<open>ValueError\<close> beyond the
  interpreter's limit on digits: \<open>None\<close> is that error.
\<close>

type_synonym entity_table = "string \<Rightarrow> string option"
type_synonym charref_table = "nat \<Rightarrow> string"

definition is_hex :: "char \<Rightarrow> bool" where
  "is_hex c = (let n = (of_char c :: nat) in
                 (48 \<le> n \<and> n \<le> 57) \<or> (65 \<le> n \<and> n \<le> 70) \<or> (97 \<le> n \<and> n \<le> 102))"

definition hex_val :: "char \<Rightarrow> nat" where
  "hex_val c = (let n = (of_char c :: nat) in
                  if n \<le> 57 then n - 48 else if n \<le> 70 then n - 55 else n - 87)"

definition name_char :: "char \<Rightarrow> bool" where
  \<comment> \<open>the class \<^verbatim>\<open>[^\t\n\f <&#;]\<close>\<close>
  "name_char c = (c \<notin> set [CHR 0x09, CHR 0x0A, CHR 0x0C, CHR '' '', CHR ''<'', CHR ''&'',
                               CHR ''#'', CHR '';''])"

definition with_semicolon :: "nat \<Rightarrow> string \<Rightarrow> nat" where
  \<comment> \<open>the optional \<open>;\<close> that ends a reference: \<open>k\<close> characters are matched so far\<close>
  "with_semicolon k s = (case drop k s of c # r \<Rightarrow> if c = CHR '';'' then Suc k else k | [] \<Rightarrow> k)"

definition charref_match :: "string \<Rightarrow> nat option" where
  \<comment> \<open>the length of the group matched right after an \<open>&\<close>, if there is a match\<close>
  "charref_match s =
     (case s of
        [] \<Rightarrow> None
      | c # r \<Rightarrow>
          if c = CHR ''#'' then
            (let ds = takeWhile is_digit r in
             if ds \<noteq> [] then Some (with_semicolon (1 + length ds) s)
             else (case r of
                     [] \<Rightarrow> None
                   | x # h \<Rightarrow>
                       (let hs = takeWhile is_hex h in
                        if (x = CHR ''x'' \<or> x = CHR ''X'') \<and> hs \<noteq> []
                        then Some (with_semicolon (2 + length hs) s)
                        else None)))
          else
            (let ns = takeWhile name_char (take 32 s) in
             if ns \<noteq> [] then Some (with_semicolon (length ns) s) else None))"

fun longest_name :: "entity_table \<Rightarrow> string \<Rightarrow> nat \<Rightarrow> string" where
  \<comment> \<open>the loop \<open>for x in range(len(s) - 1, 1, -1)\<close> of \<open>_replace_charref\<close>, from \<open>x\<close> down\<close>
  "longest_name html5 s 0 = CHR ''&'' # s"
| "longest_name html5 s (Suc n) =
     (if Suc n \<le> 1 then CHR ''&'' # s
      else (case html5 (take (Suc n) s) of
              Some v \<Rightarrow> v @ drop (Suc n) s
            | None \<Rightarrow> longest_name html5 s n))"

definition replace_charref ::
  "entity_table \<Rightarrow> charref_table \<Rightarrow> nat \<Rightarrow> string \<Rightarrow> string option" where
  \<comment> \<open>\<open>_replace_charref\<close> on the matched group\<close>
  "replace_charref html5 charref max_str_digits s =
     (case s of
        [] \<Rightarrow> Some []
      | c # r \<Rightarrow>
          if c = CHR ''#'' then
            (case r of
               [] \<Rightarrow> Some []
             | x # h \<Rightarrow>
                 if x = CHR ''x'' \<or> x = CHR ''X''
                 then Some (charref (foldl (\<lambda>a d. a * 16 + hex_val d) 0
                                      (rstrip_chars (\<lambda>c. c = CHR '';'') h)))
                 else (let ds = rstrip_chars (\<lambda>c. c = CHR '';'') r
                       in if over_digit_limit max_str_digits (length ds) then None
                          else Some (charref (foldl (\<lambda>a d. a * 10 + digit_val d) 0 ds))))
          else
            (case html5 s of
               Some v \<Rightarrow> Some v
             | None \<Rightarrow> Some (longest_name html5 s (length s - 1))))"

function sub_charref ::
  "entity_table \<Rightarrow> charref_table \<Rightarrow> nat \<Rightarrow> string \<Rightarrow> string option" where
  \<comment> \<open>\<open>_charref.sub(_replace_charref, s)\<close>: the matches from the left, not overlapping; an
      error in one replacement is the error of the whole call\<close>
  "sub_charref html5 charref max_str_digits [] = Some []"
| "sub_charref html5 charref max_str_digits (c # cs) =
     (if c = CHR ''&'' then
        (case charref_match cs of
           Some k \<Rightarrow>
             (case replace_charref html5 charref max_str_digits (take k cs) of
                None \<Rightarrow> None
              | Some v \<Rightarrow> map_option (append v) (sub_charref html5 charref max_str_digits (drop k cs)))
         | None \<Rightarrow> map_option (Cons c) (sub_charref html5 charref max_str_digits cs))
      else map_option (Cons c) (sub_charref html5 charref max_str_digits cs))"
  by pat_completeness auto
termination
  by (relation "measure (\<lambda>(html5, charref, max_str_digits, s). length s)") auto

definition unescape :: "entity_table \<Rightarrow> charref_table \<Rightarrow> nat \<Rightarrow> string \<Rightarrow> string option" where
  \<comment> \<open>\<open>html.unescape(s)\<close>\<close>
  "unescape html5 charref max_str_digits s =
     (if CHR ''&'' \<notin> set s then Some s else sub_charref html5 charref max_str_digits s)"

definition html5_xml :: entity_table where
  \<comment> \<open>the entries of \<open>html.entities.html5\<close> for the five references of XML\<close>
  "html5_xml = map_of
     [(''amp;'', ''&''), (''amp'', ''&''), (''lt;'', ''<''), (''lt'', ''<''),
      (''gt;'', ''>''), (''gt'', ''>''), (''quot;'', [CHR 0x22]), (''quot'', [CHR 0x22]),
      (''apos;'', [CHR 0x27])]"

definition charref_ascii :: charref_table where
  \<comment> \<open>the numeric references that stand for ASCII text: tab, line feed, form feed, carriage
      return and the printable characters; the control characters that \<open>html.unescape\<close> deletes
      give the empty string. A number of 128 or more, and 0, stand for text outside ASCII,
      which this table leaves out (the empty string).\<close>
  "charref_ascii n =
     (if n = 9 \<or> n = 10 \<or> n = 12 \<or> n = 13 \<or> (32 \<le> n \<and> n \<le> 126) then [char_of n] else [])"

definition unescape_trim ::
  "entity_table \<Rightarrow> charref_table \<Rightarrow> nat \<Rightarrow> string \<Rightarrow> string option" where
  \<comment> \<open>the clean-up of the text of a definition node, \<open>unescape(d.get_text(strip=True))\<close>, for
      a node whose content is the one string \<open>s\<close>\<close>
  "unescape_trim html5 charref max_str_digits s = unescape html5 charref max_str_digits (strip s)"

section \<open>Frequency lists (\<open>freqlists/generate_freqlists.py\<close>)\<close>

type_synonym freq_table = "string \<rightharpoonup> int"
type_synonym freq_lists = "string \<rightharpoonup> freq_table"

datatype py_error = KeyError | AttributeError

definition row_pair :: "nat \<Rightarrow> string list \<Rightarrow> (string \<times> int) option" where
  \<comment> \<open>the checks at the head of the loop body of \<open>apply_existing_freqlist\<close>: a row shorter
      than two fields and a row whose last field is not an integer are skipped; otherwise the
      word is \<open>row[1].lower()\<close> and the count \<open>int(row[-1])\<close>\<close>
  "row_pair max_str_digits row =
     (if length row < 2 then None
      else (case py_int max_str_digits (last row) of
              None \<Rightarrow> None
            | Some freq \<Rightarrow> Some (lower (row ! 1), freq)))"

definition apply_row :: "nat \<Rightarrow> freq_table \<Rightarrow> string list \<Rightarrow> freq_table" where
  \<comment> \<open>one turn of the loop, on the table \<open>freq_lists[lang]\<close>\<close>
  "apply_row max_str_digits t row =
     (case row_pair max_str_digits row of
        None \<Rightarrow> t
      | Some (word, freq) \<Rightarrow>
          (case t word of
             Some v \<Rightarrow> t(word \<mapsto> v + freq)
           | None \<Rightarrow> t))"

definition apply_existing_freqlist ::
  "nat \<Rightarrow> freq_lists \<Rightarrow> string \<Rightarrow> string list list option
     \<Rightarrow> py_error + (freq_lists \<times> bool)" where
  \<comment> \<open>The third argument is the content of the source file the directory lookup finds, as
      the rows \<open>csv.reader\<close> yields; \<open>None\<close> when there is no such file. \<open>freq_lists[lang]\<close>
      is read only for a row that passes the checks, and raises \<open>KeyError\<close> when the
      language has no table.\<close>
  "apply_existing_freqlist max_str_digits freq_lists lang source_file =
     (case source_file of
        None \<Rightarrow> Inr (freq_lists, False)
      | Some rows \<Rightarrow>
          (case freq_lists lang of
             None \<Rightarrow>
               if list_ex (\<lambda>row. row_pair max_str_digits row \<noteq> None) rows then Inl KeyError
               else Inr (freq_lists, True)
           | Some t \<Rightarrow> Inr (freq_lists(lang \<mapsto> foldl (apply_row max_str_digits) t rows), True)))"

definition reference_total :: "nat \<Rightarrow> string list list \<Rightarrow> string \<Rightarrow> int" where
  \<comment> \<open>What the reference table adds to the key \<open>w\<close>, in the words of the specification: the
      sum of the counts of the rows whose word, lower-cased, is \<open>w\<close>. A row gives a word and
      a count when it has two fields or more (the word is the second) and its last field is
      an integer (the count); any other row gives nothing.\<close>
  "reference_total max_str_digits rows w =
     sum_list (map (\<lambda>row. if 2 \<le> length row \<and> lower (row ! 1) = w
                            then (case py_int max_str_digits (last row) of
                                    None \<Rightarrow> 0
                                  | Some n \<Rightarrow> n)
                            else 0) rows)"

section \<open>Entries\<close>

text \<open>
  Both dictionary parsers build an entry \<open>{"word": ..., "definitions": [...]}\<close> whose
  definitions are dictionaries from which every key with an empty value is left out. A
  definition is a record of optional fields: \<open>None\<close> is a key that the dictionary does
  not have.
\<close>

record defn =
  description :: "string option"
  pos :: "string option"
  origin :: "string option"
  synonyms :: "string list option"
  antonyms :: "string list option"
  examples :: "string list option"
  inflections :: "string list option"
  source_title :: "string option"
  source_link :: "string option"

record entry =
  word :: "string option"
  definitions :: "defn list"

definition keep_str :: "string option \<Rightarrow> string option" where
  \<comment> \<open>the filter \<open>if value\<close> on a string or \<open>None\<close>\<close>
  "keep_str v = (case v of None \<Rightarrow> None | Some s \<Rightarrow> if s = [] then None else Some s)"

definition keep_list :: "string list \<Rightarrow> string list option" where
  \<comment> \<open>the filter \<open>if value\<close> on a list\<close>
  "keep_list xs = (if xs = [] then None else Some xs)"

definition has_word :: "entry \<Rightarrow> bool" where
  \<comment> \<open>the test \<open>new_entry.get("word")\<close>: the headword is there and is not the empty string\<close>
  "has_word e = (case word e of None \<Rightarrow> False | Some w \<Rightarrow> w \<noteq> [])"

section \<open>The GCIDE parser (\<open>dictionaries/gcide/parser.py\<close>)\<close>

definition gcide_process_entry ::
  "entity_table \<Rightarrow> charref_table \<Rightarrow> nat \<Rightarrow> node \<Rightarrow> entry option" where
  \<comment> \<open>\<open>process_entry\<close> on a paragraph node. The calls that can raise in its \<open>try\<close> block are
      those of \<open>html.unescape\<close>; the \<open>except\<close> branch then returns \<open>None\<close>.\<close>
  "gcide_process_entry html5 charref max_str_digits entry =
     (let word = map_option get_text_strip (find ''ent'' entry);
          pos_xml = find ''pos'' entry;
          descriptions_xml = find_all ''def'' entry;
          origin_xml = find ''ety'' entry;
          synonyms_xml = find ''syn'' entry;
          antonyms_xml = find ''ant'' entry;
          sources_xml = find_all ''source'' entry;
          example_xml = (if find ''qex'' entry \<noteq> None then find ''q'' entry else None);
          pos = map_option get_text_strip pos_xml;
          descriptions = those (map (\<lambda>d. unescape html5 charref max_str_digits (get_text_strip d))
                                  descriptions_xml);
          origin = (case origin_xml of
                      None \<Rightarrow> Some None
                    | Some x \<Rightarrow> map_option Some
                        (unescape html5 charref max_str_digits (strip_of '' []'' (get_text x))));
          synonyms = (case synonyms_xml of
                        None \<Rightarrow> []
                      | Some x \<Rightarrow> map (\<lambda>w. lower (strip w))
                                   (split_on CHR '','' (replace ''Syn. --'' [] (get_text_strip x))));
          antonyms = (case antonyms_xml of
                        None \<Rightarrow> []
                      | Some x \<Rightarrow> map (\<lambda>w. lower (strip w)) (split_on CHR '';'' (get_text_strip x)));
          source = (case sources_xml of [] \<Rightarrow> [] | x # xs \<Rightarrow> get_text_strip x);
          examples = (case example_xml of
                        None \<Rightarrow> Some []
                      | Some x \<Rightarrow> map_option (\<lambda>e. [e])
                          (unescape html5 charref max_str_digits (get_text_strip x)))
      in case descriptions of
           None \<Rightarrow> None
         | Some ds \<Rightarrow>
             (case origin of
                None \<Rightarrow> None
              | Some orig \<Rightarrow>
                  (case examples of
                     None \<Rightarrow> None
                   | Some exs \<Rightarrow>
                       Some \<lparr>word = word,
                             definitions = map (\<lambda>description.
                               \<lparr>description = keep_str (Some description),
                                pos = keep_str pos,
                                origin = keep_str orig,
                                synonyms = keep_list synonyms,
                                antonyms = keep_list antonyms,
                                examples = keep_list exs,
                                inflections = None,
                                source_title = keep_str (Some source),
                                source_link = None\<rparr>) ds\<rparr>)))"

definition process_letter_step :: "entry list \<Rightarrow> entry option \<Rightarrow> entry list" where
  \<comment> \<open>one turn of the loop of \<open>process_letter\<close>, on the result of \<open>process_entry\<close>. An entry
      is a dictionary of two keys and so always true; \<open>None\<close> is skipped.\<close>
  "process_letter_step data r =
     (case r of
        None \<Rightarrow> data
      | Some new_entry \<Rightarrow>
          if has_word new_entry then data @ [new_entry]
          else if length data \<ge> 1
          then butlast data @
                 [(last data)\<lparr>definitions := definitions (last data) @ definitions new_entry\<rparr>]
          else data)"

definition merge_entries :: "entry option list \<Rightarrow> entry list" where
  \<comment> \<open>the loop of \<open>process_letter\<close> over the results, from \<open>data = []\<close>\<close>
  "merge_entries results = foldl process_letter_step [] results"

definition process_letter ::
  "entity_table \<Rightarrow> charref_table \<Rightarrow> nat \<Rightarrow> node option \<Rightarrow> entry list" where
  \<comment> \<open>The argument is the parsed file of the letter; \<open>None\<close> when the file cannot be read.\<close>
  "process_letter html5 charref max_str_digits soup =
     (case soup of
        None \<Rightarrow> []
      | Some root \<Rightarrow>
          merge_entries (map (gcide_process_entry html5 charref max_str_digits) (find_all ''p'' root)))"

definition sort_word :: "entry \<Rightarrow> string" where
  \<comment> \<open>the sort key \<open>entry["word"].lower()\<close>, for an entry that has a word\<close>
  "sort_word e = (case word e of None \<Rightarrow> [] | Some w \<Rightarrow> lower w)"

definition export_parsed_data :: "entry list \<Rightarrow> py_error + entry list option" where
  \<comment> \<open>the entries \<open>export_parsed_data\<close> writes, in their order: \<open>None\<close> when there is no data
      and nothing is written. \<open>list.sort\<close> is stable; the key of an entry whose word is \<open>None\<close>
      raises \<open>AttributeError\<close>.\<close>
  "export_parsed_data parsed_data =
     (if parsed_data = [] then Inr None
      else if list_ex (\<lambda>e. word e = None) parsed_data then Inl AttributeError
      else Inr (Some (sort_key sort_word parsed_data)))"

section \<open>The scraped dictionary parser (\<open>dictionaries/pinoy_dictionary/parser.py\<close>)\<close>

text \<open>
  A raw record is the dictionary the scraper wrote: the word (\<open>None\<close> when the key is
  missing), the definition as BeautifulSoup parses it, and the source link.
\<close>

record raw_entry =
  raw_word :: "string option"
  raw_definition :: node
  raw_source :: string

subsection \<open>The regular expressions\<close>

definition newline :: char where
  "newline = CHR 0x0A"

fun lazy_close :: "string \<Rightarrow> nat option" where
  \<comment> \<open>the index of the first \<open>)\<close>, with no line feed before it\<close>
  "lazy_close [] = None"
| "lazy_close (c # cs) =
     (if c = CHR '')'' then Some 0
      else if c = newline then None
      else map_option Suc (lazy_close cs))"

definition paren_group :: "string \<Rightarrow> nat option" where
  \<comment> \<open>\<^verbatim>\<open>\(.+?\)\<close> after its opening parenthesis: the number of characters it takes. The lazy
      \<^verbatim>\<open>.+?\<close> takes one character, then as few more as reach a \<open>)\<close>.\<close>
  "paren_group s =
     (case s of
        [] \<Rightarrow> None
      | c # cs \<Rightarrow> if c = newline then None else map_option (\<lambda>k. k + 2) (lazy_close cs))"

function remove_parens :: "string \<Rightarrow> string" where
  \<comment> \<open>\<^verbatim>\<open>re.sub(r"\(.+?\)", "", word)\<close>\<close>
  "remove_parens [] = []"
| "remove_parens (c # cs) =
     (if c = CHR ''('' then
        (case paren_group cs of
           Some k \<Rightarrow> remove_parens (drop k cs)
         | None \<Rightarrow> c # remove_parens cs)
      else c # remove_parens cs)"
  by pat_completeness auto
termination
  by (relation "measure length") auto

text \<open>
  The word is put into a pattern as it is: \<^verbatim>\<open>re.sub(f"^{word}", "", full_definition)\<close>. The
  model reads the word as Python's \<open>re\<close> does within this fragment: a sequence of single
  characters, each a literal or the dot, each with at most one of the greedy quantifiers
  \<open>*\<close>, \<open>+\<close>, \<open>?\<close>. Where \<open>re\<close> refuses the pattern, \<open>re.sub\<close> raises \<open>re.error\<close>
  and the \<open>except\<close> branch of \<open>process_entry\<close> returns \<open>None\<close>; \<open>pattern_error\<close> holds of
  two kinds of refused pattern: a quantifier right after the \<open>^\<close>, and parentheses that do
  not balance in a word with no backslash, no \<open>[\<close> and no \<open>(?\<close>. Every other word is
  outside the model, whether \<open>re\<close> accepts its pattern or not.
\<close>

datatype atom = Lit char | Any_char
datatype quant = Once | Star | Plus | Opt
type_synonym pattern = "(atom \<times> quant) list"

definition meta_char :: "char \<Rightarrow> bool" where
  "meta_char c = (c \<in> set [CHR ''.'', CHR ''^'', CHR ''$'', CHR ''*'', CHR ''+'', CHR ''?'',
                            CHR ''{'', CHR ''}'', CHR ''['', CHR '']'', CHR 0x5C, CHR ''|'',
                            CHR ''('', CHR '')''])"

definition atom_of :: "char \<Rightarrow> atom" where
  "atom_of c = (if c = CHR ''.'' then Any_char else Lit c)"

definition quant_of :: "char \<Rightarrow> quant option" where
  "quant_of c = (if c = CHR ''*'' then Some Star
                 else if c = CHR ''+'' then Some Plus
                 else if c = CHR ''?'' then Some Opt
                 else None)"

fun compile_word :: "string \<Rightarrow> pattern option" where
  "compile_word [] = Some []"
| "compile_word (c # cs) =
     (if meta_char c \<and> c \<noteq> CHR ''.'' then None
      else (case cs of
              [] \<Rightarrow> Some [(atom_of c, Once)]
            | q # rest \<Rightarrow>
                (case quant_of q of
                   Some qu \<Rightarrow> map_option (Cons (atom_of c, qu)) (compile_word rest)
                 | None \<Rightarrow> map_option (Cons (atom_of c, Once)) (compile_word cs))))"

fun paren_depth :: "nat \<Rightarrow> string \<Rightarrow> nat option" where
  \<comment> \<open>the number of groups left open at the end of the word, from \<open>depth\<close> open ones;
      \<open>None\<close> when a \<open>)\<close> closes nothing\<close>
  "paren_depth depth [] = Some depth"
| "paren_depth depth (c # cs) =
     (if c = CHR ''('' then paren_depth (Suc depth) cs
      else if c = CHR '')'' then (case depth of 0 \<Rightarrow> None | Suc d \<Rightarrow> paren_depth d cs)
      else paren_depth depth cs)"

fun has_group_extension :: "string \<Rightarrow> bool" where
  \<comment> \<open>the word holds \<open>(?\<close>\<close>
  "has_group_extension [] = False"
| "has_group_extension [c] = False"
| "has_group_extension (c # d # cs) =
     ((c = CHR ''('' \<and> d = CHR ''?'') \<or> has_group_extension (d # cs))"

definition pattern_error :: "string \<Rightarrow> bool" where
  \<comment> \<open>\<open>re\<close> refuses the pattern \<^verbatim>\<open>"^" + word\<close>: nothing to repeat after the \<open>^\<close>, or an
      unbalanced or unterminated group\<close>
  "pattern_error w =
     ((case w of [] \<Rightarrow> False | c # cs \<Rightarrow> quant_of c \<noteq> None)
      \<or> (CHR 0x5C \<notin> set w \<and> CHR ''['' \<notin> set w \<and> \<not> has_group_extension w
          \<and> paren_depth 0 w \<noteq> Some 0))"

definition atom_ok :: "atom \<Rightarrow> char \<Rightarrow> bool" where
  "atom_ok a c = (case a of Lit x \<Rightarrow> c = x | Any_char \<Rightarrow> c \<noteq> newline)"

fun match_here :: "pattern \<Rightarrow> string \<Rightarrow> string option" where
  \<comment> \<open>the text left after the match at the head of the text that backtracking finds first\<close>
  "match_here [] s = Some s"
| "match_here ((a, Once) # r) s =
     (case s of
        [] \<Rightarrow> None
      | c # cs \<Rightarrow> if atom_ok a c then match_here r cs else None)"
| "match_here ((a, Plus) # r) s =
     (case s of
        [] \<Rightarrow> None
      | c # cs \<Rightarrow> if atom_ok a c then match_here ((a, Star) # r) cs else None)"
| "match_here ((a, Opt) # r) s =
     (case s of
        [] \<Rightarrow> match_here r []
      | c # cs \<Rightarrow>
          if atom_ok a c
          then (case match_here r cs of Some t \<Rightarrow> Some t | None \<Rightarrow> match_here r s)
          else match_here r s)"
| "match_here ((a, Star) # r) s =
     (case s of
        [] \<Rightarrow> match_here r []
      | c # cs \<Rightarrow>
          if atom_ok a c
          then (case match_here ((a, Star) # r) cs of Some t \<Rightarrow> Some t | None \<Rightarrow> match_here r s)
          else match_here r s)"

definition sub_prefix :: "pattern \<Rightarrow> string \<Rightarrow> string" where
  \<comment> \<open>\<^verbatim>\<open>re.sub("^" + word, "", text)\<close>: the pattern can match at the start of the text only\<close>
  "sub_prefix rx text = (case match_here rx text of Some rest \<Rightarrow> rest | None \<Rightarrow> text)"

definition not_paren :: "char \<Rightarrow> bool" where
  \<comment> \<open>the class \<^verbatim>\<open>[^\(\)]\<close>\<close>
  "not_paren c = (c \<noteq> CHR ''('' \<and> c \<noteq> CHR '')'')"

definition closes :: "string \<Rightarrow> bool" where
  \<comment> \<open>\<^verbatim>\<open>[^\(\)]*\)\<close> matches at the head of the text\<close>
  "closes s = (case dropWhile not_paren s of [] \<Rightarrow> False | c # r \<Rightarrow> c = CHR '')'')"

fun nested_group :: "string \<Rightarrow> string \<Rightarrow> string option" where
  \<comment> \<open>\<^verbatim>\<open>.+?\)[^\(\)]*\<close> and the closing \<^verbatim>\<open>\)\<close>, after the opening parenthesis of the nested
      pair: \<open>taken\<close> is what the lazy \<^verbatim>\<open>.+?\<close> holds so far. The result is the text matched
      before the closing parenthesis.\<close>
  "nested_group taken [] = None"
| "nested_group taken (c # cs) =
     (if taken \<noteq> [] \<and> c = CHR '')'' \<and> closes cs
      then Some (taken @ [c] @ takeWhile not_paren cs)
      else if c = newline then None
      else nested_group (taken @ [c]) cs)"

definition inflection_match :: "string \<Rightarrow> string option" where
  \<comment> \<open>group 1 of \<^verbatim>\<open>re.match(r"^\(([^\(\)]*(?:\(.+?\))?[^\(\)]*)\)", text)\<close>\<close>
  "inflection_match text =
     (case text of
        [] \<Rightarrow> None
      | c # rest \<Rightarrow>
          if c \<noteq> CHR ''('' then None
          else (let a = takeWhile not_paren rest in
                case drop (length a) rest of
                  [] \<Rightarrow> None
                | d # r2 \<Rightarrow>
                    if d = CHR '')'' then Some a
                    else map_option (\<lambda>g. a @ [d] @ g) (nested_group [] r2)))"

definition opt_char :: "char \<Rightarrow> string \<Rightarrow> nat" where
  \<comment> \<open>an optional character: how many characters it takes\<close>
  "opt_char x s = (case s of [] \<Rightarrow> 0 | c # r \<Rightarrow> if c = x then 1 else 0)"

definition pos_item :: "string \<Rightarrow> nat option" where
  \<comment> \<open>one turn of the group \<^verbatim>\<open>(?:(?:\d\. )?[a-z]+\.,?;? ?)\<close>: the number of characters it takes\<close>
  "pos_item s =
     (let k0 = (case s of
                  d # p # sp # r \<Rightarrow> if is_digit d \<and> p = CHR ''.'' \<and> sp = CHR '' '' then 3 else 0
                | _ \<Rightarrow> 0);
          w = takeWhile is_lower (drop k0 s);
          k1 = k0 + length w
      in if w = [] then None
         else (case drop k1 s of
                 [] \<Rightarrow> None
               | c # r \<Rightarrow>
                   if c \<noteq> CHR ''.'' then None
                   else (let k2 = Suc k1;
                             k3 = k2 + opt_char CHR '','' (drop k2 s);
                             k4 = k3 + opt_char CHR '';'' (drop k3 s);
                             k5 = k4 + opt_char CHR '' '' (drop k4 s)
                         in Some k5)))"

function pos_items :: "string \<Rightarrow> nat" where
  \<comment> \<open>the turns of the group, as many as match: the number of characters they take\<close>
  "pos_items s =
     (case pos_item s of
        None \<Rightarrow> 0
      | Some k \<Rightarrow> k + pos_items (drop k s))"
  by pat_completeness auto
termination
  by (relation "measure length")
    (auto simp: pos_item_def Let_def split: list.splits if_splits)

definition pos_match :: "string \<Rightarrow> string option" where
  \<comment> \<open>group 1 of \<^verbatim>\<open>re.match(r"^((?:(?:\d\. )?[a-z]+\.,?;? ?)+)", text)\<close>\<close>
  "pos_match text = (let k = pos_items text in if k = 0 then None else Some (take k text))"

definition split_sep :: "string \<Rightarrow> nat option" where
  \<comment> \<open>\<^verbatim>\<open>\d+(?:\.|\))\s*\<close> at the head of the text: the number of characters it takes\<close>
  "split_sep s =
     (let ds = takeWhile is_digit s in
      if ds = [] then None
      else (case drop (length ds) s of
              [] \<Rightarrow> None
            | c # r \<Rightarrow>
                if c = CHR ''.'' \<or> c = CHR '')''
                then Some (length ds + 1 + length (takeWhile is_space r))
                else None))"

function re_split_from :: "string \<Rightarrow> string \<Rightarrow> string list" where
  \<comment> \<open>the pieces of the text between the matches; \<open>cur\<close> is the piece read so far\<close>
  "re_split_from cur [] = [cur]"
| "re_split_from cur (c # cs) =
     (case split_sep (c # cs) of
        Some k \<Rightarrow> cur # re_split_from [] (drop k (c # cs))
      | None \<Rightarrow> re_split_from (cur @ [c]) cs)"
  by pat_completeness auto
termination
  by (relation "measure (\<lambda>(cur, s). length s)")
    (auto simp: split_sep_def Let_def split: list.splits if_splits)

definition re_split :: "string \<Rightarrow> string list" where
  \<comment> \<open>\<^verbatim>\<open>re.split(r"\d+(?:\.|\))\s*", text)\<close>\<close>
  "re_split text = re_split_from [] text"

subsection \<open>\<open>process_entry\<close>\<close>

datatype limit = Pattern_not_modelled

definition clean_word :: "string \<Rightarrow> string" where
  \<comment> \<open>the two clean-up steps on the word\<close>
  "clean_word word0 =
     (let word1 = strip (remove_parens word0)
      in if CHR '','' \<in> set word1
         then (case split_on CHR '','' word1 of [] \<Rightarrow> [] | w # ws \<Rightarrow> strip w)
         else word1)"

definition extract_inflections :: "string \<Rightarrow> string list \<times> string" where
  \<comment> \<open>the inflections and the definition text that is left\<close>
  "extract_inflections full_definition =
     (case inflection_match full_definition of
        None \<Rightarrow> ([], full_definition)
      | Some group1 \<Rightarrow>
          (let inflections_str = strip (replace ''.'' '','' group1)
           in (map strip (split_on CHR '','' inflections_str),
               strip (drop (length (''('' @ inflections_str @ '')'')) full_definition))))"

definition extract_pos :: "string \<Rightarrow> string option \<times> string" where
  \<comment> \<open>the parts of speech and the definition text that is left\<close>
  "extract_pos full_definition =
     (case pos_match full_definition of
        None \<Rightarrow> (None, full_definition)
      | Some group1 \<Rightarrow>
          (let pos = strip group1
           in (Some pos, strip (drop (length pos) full_definition))))"

definition split_definitions ::
  "string option \<Rightarrow> string list \<Rightarrow> string \<Rightarrow> string \<Rightarrow> defn list" where
  \<comment> \<open>the list comprehension that builds the definitions\<close>
  "split_definitions part infl source full_definition =
     (if full_definition = [] then []
      else map (\<lambda>description.
                  \<lparr>description = keep_str (Some (strip_of '' ;'' description)),
                   pos = keep_str part,
                   origin = None,
                   synonyms = None,
                   antonyms = None,
                   examples = None,
                   inflections = keep_list infl,
                   source_title = None,
                   source_link = keep_str (Some source)\<rparr>)
             (filter (\<lambda>description. description \<noteq> []) (re_split full_definition)))"

definition pinoy_process_entry :: "raw_entry \<Rightarrow> limit + entry option" where
  "pinoy_process_entry entry =
     (case raw_word entry of
        None \<Rightarrow> Inr None
      | Some word0 \<Rightarrow>
          if word0 = [] \<or> isspace word0 then Inr None
          else (let full_definition = get_text_strip (raw_definition entry);
                    source = raw_source entry;
                    word = clean_word word0
                in if pattern_error word then Inr None
                   else case compile_word word of
                     None \<Rightarrow> Inl Pattern_not_modelled
                   | Some rx \<Rightarrow>
                       (let text1 = lstrip_of '' .,;:!?'' (sub_prefix rx full_definition);
                            (infl, text2) = extract_inflections text1;
                            (part, text3) = extract_pos text2
                        in Inr (Some \<lparr>word = Some word,
                                      definitions = split_definitions part infl source text3\<rparr>))))"

section \<open>Example values\<close>

definition ex_head :: entry where
  "ex_head = \<lparr>word = Some ''cat'',
               definitions = [\<lparr>description = Some ''a small animal'', pos = Some ''n.'',
                 origin = None, synonyms = None, antonyms = None, examples = None,
                 inflections = None, source_title = None, source_link = None\<rparr>]\<rparr>"

definition ex_cont :: entry where
  "ex_cont = \<lparr>word = None,
               definitions = [\<lparr>description = Some ''a whip'', pos = None,
                 origin = None, synonyms = None, antonyms = None, examples = None,
                 inflections = None, source_title = None, source_link = None\<rparr>]\<rparr>"

definition ex_entry :: "string \<Rightarrow> entry" where
  "ex_entry w = \<lparr>word = Some w, definitions = []\<rparr>"

definition ex_raw :: "string \<Rightarrow> string \<Rightarrow> raw_entry" where
  \<comment> \<open>a scraped record: the definition is a paragraph that holds one string, no source link\<close>
  "ex_raw w t = \<lparr>raw_word = Some w, raw_definition = Tag ''[document]'' [Tag ''p'' [Text t]],
                 raw_source = []\<rparr>"

definition ex_text :: string where
  "ex_text = ''(tense, form) v. 1. to run 2. to flee''"

definition ex_sense :: "string \<Rightarrow> string option \<Rightarrow> defn" where
  "ex_sense d src = \<lparr>description = Some d, pos = Some ''v.'', origin = None, synonyms = None,
     antonyms = None, examples = None, inflections = Some [''tense'', ''form''],
     source_title = None, source_link = src\<rparr>"

definition ex_bare :: "string option \<Rightarrow> defn" where
  \<comment> \<open>a definition that has at most a description\<close>
  "ex_bare d = \<lparr>description = d, pos = None, origin = None, synonyms = None, antonyms = None,
     examples = None, inflections = None, source_title = None, source_link = None\<rparr>"

section \<open>Properties of the frequency merge\<close>

lemma apply_row_dom: "dom (apply_row m t row) = dom t"
  by (auto simp: apply_row_def split: option.splits prod.splits if_splits)

lemma foldl_apply_row_dom: "dom (foldl (apply_row m) t rows) = dom t"
  by (induction rows arbitrary: t) (simp_all add: apply_row_dom)

lemma reference_total_Nil: "reference_total m [] w = 0"
  by (simp add: reference_total_def)

lemma reference_total_Cons:
  "reference_total m (row # rows) w = reference_total m [row] w + reference_total m rows w"
  by (simp add: reference_total_def)

lemma apply_row_hit:
  assumes "2 \<le> length row" and "py_int m (last row) = Some n"
    and "t (lower (row ! 1)) = Some v"
  shows "apply_row m t row = t(lower (row ! 1) \<mapsto> v + n)"
  using assms by (simp add: apply_row_def row_pair_def)

lemma apply_row_miss:
  assumes "2 \<le> length row" and "py_int m (last row) = Some n"
    and "t (lower (row ! 1)) = None"
  shows "apply_row m t row = t"
  using assms by (simp add: apply_row_def row_pair_def)

lemma apply_row_skip:
  assumes "length row < 2 \<or> py_int m (last row) = None"
  shows "apply_row m t row = t"
  using assms by (auto simp: apply_row_def row_pair_def)

lemma apply_row_value:
  "t w = Some v \<Longrightarrow> apply_row m t row w = Some (v + reference_total m [row] w)"
  by (auto simp: apply_row_def row_pair_def reference_total_def split: option.splits)

lemma foldl_apply_row_value:
  "t w = Some v \<Longrightarrow> foldl (apply_row m) t rows w = Some (v + reference_total m rows w)"
proof (induction rows arbitrary: t v)
  case Nil
  then show ?case by (simp add: reference_total_Nil)
next
  case (Cons row rows)
  have step: "apply_row m t row w = Some (v + reference_total m [row] w)"
    using Cons.prems by (rule apply_row_value)
  have "foldl (apply_row m) (apply_row m t row) rows w
          = Some (v + reference_total m [row] w + reference_total m rows w)"
    using step by (rule Cons.IH)
  then show ?case
    by (simp add: reference_total_Cons [of m row rows w])
qed

text \<open>
  C1. The reference merge of \<open>apply_existing_freqlist\<close> is additive and inserts nothing. For
  a row that gives a word and a count: when the lower-cased word is a key of the language's
  table the count is added to its value, and when it is not the table stays as it is; a row
  that gives none is skipped. So for a language that has a table, the merged table has exactly
  the keys of the local table, every key's count is its local count plus the counts of the
  reference rows whose lower-cased word is that key, a word that is not a key stays absent,
  and the tables of the other languages are untouched.
\<close>

theorem apply_existing_freqlist_additive:
  assumes "freq_lists lang = Some t"
  shows "(\<exists>t'. apply_existing_freqlist m freq_lists lang (Some rows)
                 = Inr (freq_lists(lang \<mapsto> t'), True)
           \<and> t' = foldl (apply_row m) t rows
           \<and> dom t' = dom t
           \<and> (\<forall>w v. t w = Some v \<longrightarrow> t' w = Some (v + reference_total m rows w))
           \<and> (\<forall>w. t w = None \<longrightarrow> t' w = None))
         \<and> (2 \<le> length row \<and> py_int m (last row) = Some n \<and> u (lower (row ! 1)) = Some v
              \<longrightarrow> apply_row m u row = u(lower (row ! 1) \<mapsto> v + n))
         \<and> (2 \<le> length row \<and> py_int m (last row) = Some n \<and> u (lower (row ! 1)) = None
              \<longrightarrow> apply_row m u row = u)
         \<and> (length row < 2 \<or> py_int m (last row) = None \<longrightarrow> apply_row m u row = u)"
proof -
  let ?t' = "foldl (apply_row m) t rows"
  have run: "apply_existing_freqlist m freq_lists lang (Some rows)
               = Inr (freq_lists(lang \<mapsto> ?t'), True)"
    using assms by (simp add: apply_existing_freqlist_def)
  have keys: "dom ?t' = dom t"
    by (rule foldl_apply_row_dom)
  have counts: "\<forall>w v. t w = Some v \<longrightarrow> ?t' w = Some (v + reference_total m rows w)"
    by (simp add: foldl_apply_row_value)
  have absent: "\<forall>w. t w = None \<longrightarrow> ?t' w = None"
    using keys by (metis domIff)
  have whole: "\<exists>t'. apply_existing_freqlist m freq_lists lang (Some rows)
                 = Inr (freq_lists(lang \<mapsto> t'), True)
           \<and> t' = foldl (apply_row m) t rows
           \<and> dom t' = dom t
           \<and> (\<forall>w v. t w = Some v \<longrightarrow> t' w = Some (v + reference_total m rows w))
           \<and> (\<forall>w. t w = None \<longrightarrow> t' w = None)"
    using run keys counts absent by blast
  have hit: "2 \<le> length row \<and> py_int m (last row) = Some n \<and> u (lower (row ! 1)) = Some v
              \<longrightarrow> apply_row m u row = u(lower (row ! 1) \<mapsto> v + n)"
    using apply_row_hit by blast
  have miss: "2 \<le> length row \<and> py_int m (last row) = Some n \<and> u (lower (row ! 1)) = None
              \<longrightarrow> apply_row m u row = u"
    using apply_row_miss by blast
  have skip: "length row < 2 \<or> py_int m (last row) = None \<longrightarrow> apply_row m u row = u"
    using apply_row_skip by blast
  show ?thesis
    by (intro conjI whole hit miss skip)
qed

theorem apply_existing_freqlist_additive_witness:
  "apply_existing_freqlist 4300 [''eng'' \<mapsto> [''cat'' \<mapsto> 2]] ''eng''
     (Some [[''1'', ''Cat'', ''5''], [''2'', ''dog'', ''9''], [''3'', ''CAT'', ''x''],
            [''4'', ''cat'', ''5'' @ [CHR 0x1C]], [''cat'']])
   = Inr ([''eng'' \<mapsto> [''cat'' \<mapsto> 7]], True)
   \<and> apply_row 4300 [''cat'' \<mapsto> 2] [''1'', ''Cat'', ''5''] = [''cat'' \<mapsto> 7]
   \<and> apply_row 4300 [''cat'' \<mapsto> 2] [''2'', ''dog'', ''9''] = [''cat'' \<mapsto> 2]
   \<and> apply_row 4300 [''cat'' \<mapsto> 2] [''4'', ''cat'', ''5'' @ [CHR 0x1C]] = [''cat'' \<mapsto> 2]"
proof -
  let ?t = "[''cat'' \<mapsto> (2::int)]"
  let ?rows = "[[''1'', ''Cat'', ''5''], [''2'', ''dog'', ''9''], [''3'', ''CAT'', ''x''],
                [''4'', ''cat'', ''5'' @ [CHR 0x1C]], [''cat'']]"
  have h: "[''eng'' \<mapsto> ?t] ''eng'' = Some ?t" by simp
  have lc: "lower ''Cat'' = ''cat''" by code_simp
  have ld: "lower ''dog'' = ''dog''" by code_simp
  have i5: "py_int 4300 ''5'' = Some 5" by code_simp
  have i9: "py_int 4300 ''9'' = Some 9" by code_simp
  have ibad: "py_int 4300 (''5'' @ [CHR 0x1C]) = None" by code_simp
  note whole = apply_existing_freqlist_additive
      [where m = 4300 and rows = ?rows and row = "[]" and n = 0 and u = Map.empty and v = 0
       and freq_lists = "[''eng'' \<mapsto> ?t]" and lang = "''eng''" and t = ?t, OF h]
  then obtain t' where run: "apply_existing_freqlist 4300 [''eng'' \<mapsto> ?t] ''eng'' (Some ?rows)
      = Inr ([''eng'' \<mapsto> ?t](''eng'' \<mapsto> t'), True)"
    and keys: "dom t' = dom ?t"
    and counts: "\<forall>w v. ?t w = Some v \<longrightarrow> t' w = Some (v + reference_total 4300 ?rows w)"
    by blast
  have "reference_total 4300 ?rows ''cat'' = 5" by code_simp
  with counts have c: "t' ''cat'' = Some 7" by simp
  have "t' = [''cat'' \<mapsto> 7]"
  proof
    fix w show "t' w = [''cat'' \<mapsto> 7] w"
      using keys c by (cases "w = ''cat''") (auto simp: domIff)
  qed
  with run have r1: "apply_existing_freqlist 4300 [''eng'' \<mapsto> ?t] ''eng'' (Some ?rows)
      = Inr ([''eng'' \<mapsto> [''cat'' \<mapsto> 7]], True)" by simp
  have r2: "apply_row 4300 ?t [''1'', ''Cat'', ''5''] = [''cat'' \<mapsto> 7]"
    using apply_existing_freqlist_additive
      [where m = 4300 and row = "[''1'', ''Cat'', ''5'']" and n = 5 and u = ?t and v = 2
         and rows = "[]"
         and freq_lists = "[''eng'' \<mapsto> ?t]" and lang = "''eng''" and t = ?t, OF h]
      lc i5 by simp
  have r3: "apply_row 4300 ?t [''2'', ''dog'', ''9''] = ?t"
    using apply_existing_freqlist_additive
      [where m = 4300 and row = "[''2'', ''dog'', ''9'']" and n = 9 and u = ?t and v = 0
         and rows = "[]"
         and freq_lists = "[''eng'' \<mapsto> ?t]" and lang = "''eng''" and t = ?t, OF h]
      ld i9 by simp
  have r4: "apply_row 4300 ?t [''4'', ''cat'', ''5'' @ [CHR 0x1C]] = ?t"
    using apply_existing_freqlist_additive
      [where m = 4300 and row = "[''4'', ''cat'', ''5'' @ [CHR 0x1C]]" and n = 0 and u = ?t
         and v = 0 and rows = "[]"
         and freq_lists = "[''eng'' \<mapsto> ?t]" and lang = "''eng''" and t = ?t, OF h]
      ibad by simp
  from r1 r2 r3 r4 show ?thesis by blast
qed

section \<open>Properties of the fragment merger\<close>

lemma process_letter_step_headless_Nil:
  "list_all (\<lambda>r. case r of None \<Rightarrow> True | Some e \<Rightarrow> \<not> has_word e) rs
     \<Longrightarrow> foldl process_letter_step [] rs = []"
  by (induction rs) (auto simp: process_letter_step_def split: option.splits)

lemma process_letter_step_empty_entry:
  "process_letter_step data (Some \<lparr>word = None, definitions = []\<rparr>) = data"
  by (cases data rule: rev_cases) (simp_all add: process_letter_step_def has_word_def)

text \<open>
  C2. The merger is a left fold over the results in source order, and the order matters. A
  result with a headword (the test of the code: the word is there and is not the empty string)
  is appended as a new entry; a result without a headword that arrives while the output is
  empty is dropped. So results without a headword that come before the first headword leave
  no trace, and for a headword entry \<open>h\<close> and a continuation \<open>c\<close> the order \<open>c, h\<close>
  gives \<open>h\<close> alone, while \<open>h, c\<close> gives \<open>h\<close> with the definitions of \<open>c\<close> appended.
\<close>

theorem merge_order_sensitive:
  "(has_word e \<longrightarrow> process_letter_step data (Some e) = data @ [e])
   \<and> (\<not> has_word e \<longrightarrow> process_letter_step [] (Some e) = [])
   \<and> merge_entries (results @ [r]) = process_letter_step (merge_entries results) r
   \<and> (list_all (\<lambda>r. case r of None \<Rightarrow> True | Some e \<Rightarrow> \<not> has_word e) rs
        \<longrightarrow> merge_entries (rs @ rest) = merge_entries rest)
   \<and> (has_word h \<and> \<not> has_word c \<longrightarrow>
         merge_entries [Some c, Some h] = [h]
       \<and> merge_entries [Some h, Some c] = [h\<lparr>definitions := definitions h @ definitions c\<rparr>])"
proof -
  have a: "has_word e \<longrightarrow> process_letter_step data (Some e) = data @ [e]"
    by (simp add: process_letter_step_def)
  have b: "\<not> has_word e \<longrightarrow> process_letter_step [] (Some e) = []"
    by (simp add: process_letter_step_def)
  have c: "merge_entries (results @ [r]) = process_letter_step (merge_entries results) r"
    by (simp add: merge_entries_def)
  have d: "list_all (\<lambda>r. case r of None \<Rightarrow> True | Some e \<Rightarrow> \<not> has_word e) rs
        \<longrightarrow> merge_entries (rs @ rest) = merge_entries rest"
    by (simp add: merge_entries_def process_letter_step_headless_Nil)
  have e: "has_word h \<and> \<not> has_word c \<longrightarrow>
         merge_entries [Some c, Some h] = [h]
       \<and> merge_entries [Some h, Some c] = [h\<lparr>definitions := definitions h @ definitions c\<rparr>]"
    by (simp add: merge_entries_def process_letter_step_def)
  from a b c d e show ?thesis by blast
qed

theorem merge_order_sensitive_witness:
  "has_word ex_head \<and> \<not> has_word ex_cont
   \<and> merge_entries [Some ex_cont, Some ex_head] = [ex_head]
   \<and> merge_entries [Some ex_head, Some ex_cont]
       = [ex_head\<lparr>definitions := definitions ex_head @ definitions ex_cont\<rparr>]
   \<and> merge_entries [Some ex_head, Some ex_cont] \<noteq> merge_entries [Some ex_cont, Some ex_head]
   \<and> process_letter_step [ex_head] (Some ex_head) = [ex_head, ex_head]
   \<and> process_letter_step [] (Some ex_cont) = []
   \<and> merge_entries ([Some ex_cont, None] @ [Some ex_head]) = merge_entries [Some ex_head]"
proof -
  have h: "has_word ex_head" by (simp add: has_word_def ex_head_def)
  have c: "\<not> has_word ex_cont" by (simp add: has_word_def ex_cont_def)
  have l: "list_all (\<lambda>r. case r of None \<Rightarrow> True | Some e \<Rightarrow> \<not> has_word e) [Some ex_cont, None]"
    using c by simp
  have ne: "ex_head\<lparr>definitions := definitions ex_head @ definitions ex_cont\<rparr> \<noteq> ex_head"
    by (simp add: ex_head_def ex_cont_def)
  note t1 = merge_order_sensitive [of ex_head "[ex_head]" "[]" None "[Some ex_cont, None]"
      "[Some ex_head]" ex_head ex_cont]
  note t2 = merge_order_sensitive [of ex_cont "[]" "[]" None "[]" "[]" ex_head ex_cont]
  from h c l ne t1 t2 show ?thesis by auto
qed

text \<open>
  C4. When a continuation (a result without a headword) is folded into a non-empty output,
  the output keeps its length and all its entries but the last; the last entry keeps its word,
  and its definitions are the old ones, in their order, followed by the definitions of the
  continuation, in their order.
\<close>

theorem continuation_appends:
  assumes "\<not> has_word c" and "data \<noteq> []"
  shows "\<exists>out. process_letter_step data (Some c) = out
           \<and> length out = length data
           \<and> butlast out = butlast data
           \<and> word (last out) = word (last data)
           \<and> definitions (last out) = definitions (last data) @ definitions c
           \<and> take (length (definitions (last data))) (definitions (last out))
               = definitions (last data)
           \<and> drop (length (definitions (last data))) (definitions (last out)) = definitions c"
  using assms by (cases data rule: rev_cases) (simp_all add: process_letter_step_def)

theorem continuation_appends_witness:
  "\<not> has_word ex_cont \<and> [ex_head] \<noteq> []
   \<and> length (process_letter_step [ex_head] (Some ex_cont)) = 1
   \<and> word (last (process_letter_step [ex_head] (Some ex_cont))) = Some ''cat''
   \<and> map description (definitions (last (process_letter_step [ex_head] (Some ex_cont))))
       = [Some ''a small animal'', Some ''a whip'']"
proof -
  have c: "\<not> has_word ex_cont" by (simp add: has_word_def ex_cont_def)
  have d: "[ex_head] \<noteq> []" by simp
  from continuation_appends [OF c d] c
  show ?thesis by (simp add: ex_head_def ex_cont_def)
qed

section \<open>When the parsers return nothing\<close>

lemma gcide_process_entry_bare:
  assumes "find ''ent'' p = None" and "find_all ''def'' p = []"
  shows "gcide_process_entry html5 charref m p = None
         \<or> gcide_process_entry html5 charref m p = Some \<lparr>word = None, definitions = []\<rparr>"
  using assms by (simp add: gcide_process_entry_def Let_def split: option.splits)

lemma gcide_process_entry_bare_Some:
  assumes "find ''ent'' p = None" and "find_all ''def'' p = []"
    and "find ''ety'' p = None" and "find ''qex'' p = None"
  shows "gcide_process_entry html5 charref m p = Some \<lparr>word = None, definitions = []\<rparr>"
  using assms by (simp add: gcide_process_entry_def Let_def)

lemma process_letter_step_None: "process_letter_step data None = data"
  by (simp add: process_letter_step_def)

text \<open>
  C3, as the code has it. The scraped dictionary parser returns \<open>None\<close> for a record whose
  word is missing, empty or only whitespace. The GCIDE parser does not return \<open>None\<close> for a
  paragraph with no \<open>ent\<close> node and no \<open>def\<close> node: it returns an entry with no word and
  no definitions (it returns \<open>None\<close> only when \<open>html.unescape\<close> raises on the text of the
  paragraph's \<open>ety\<close> or \<open>q\<close> node, which cannot happen when the paragraph has neither an
  \<open>ety\<close> nor a \<open>qex\<close> node), and either way the merger leaves its output as it is.
\<close>

theorem normalize_absent:
  "(raw_word r = None \<or> raw_word r = Some [] \<or> (\<exists>w. raw_word r = Some w \<and> isspace w)
      \<longrightarrow> pinoy_process_entry r = Inr None)
   \<and> (find ''ent'' p = None \<and> find_all ''def'' p = [] \<longrightarrow>
         (gcide_process_entry html5 charref m p = None
          \<or> gcide_process_entry html5 charref m p = Some \<lparr>word = None, definitions = []\<rparr>)
       \<and> process_letter_step data (gcide_process_entry html5 charref m p) = data)
   \<and> (find ''ent'' p = None \<and> find_all ''def'' p = []
        \<and> find ''ety'' p = None \<and> find ''qex'' p = None \<longrightarrow>
         gcide_process_entry html5 charref m p = Some \<lparr>word = None, definitions = []\<rparr>)"
proof -
  have a: "raw_word r = None \<or> raw_word r = Some [] \<or> (\<exists>w. raw_word r = Some w \<and> isspace w)
      \<longrightarrow> pinoy_process_entry r = Inr None"
    by (auto simp: pinoy_process_entry_def)
  have b: "find ''ent'' p = None \<and> find_all ''def'' p = [] \<longrightarrow>
         (gcide_process_entry html5 charref m p = None
          \<or> gcide_process_entry html5 charref m p = Some \<lparr>word = None, definitions = []\<rparr>)
       \<and> process_letter_step data (gcide_process_entry html5 charref m p) = data"
  proof
    assume h: "find ''ent'' p = None \<and> find_all ''def'' p = []"
    then have d: "gcide_process_entry html5 charref m p = None
          \<or> gcide_process_entry html5 charref m p = Some \<lparr>word = None, definitions = []\<rparr>"
      using gcide_process_entry_bare by blast
    then have "process_letter_step data (gcide_process_entry html5 charref m p) = data"
      using process_letter_step_None process_letter_step_empty_entry by metis
    with d show "(gcide_process_entry html5 charref m p = None
          \<or> gcide_process_entry html5 charref m p = Some \<lparr>word = None, definitions = []\<rparr>)
       \<and> process_letter_step data (gcide_process_entry html5 charref m p) = data" by blast
  qed
  have c: "find ''ent'' p = None \<and> find_all ''def'' p = []
        \<and> find ''ety'' p = None \<and> find ''qex'' p = None \<longrightarrow>
         gcide_process_entry html5 charref m p = Some \<lparr>word = None, definitions = []\<rparr>"
    using gcide_process_entry_bare_Some by blast
  show ?thesis by (intro conjI a b c)
qed

theorem normalize_absent_witness:
  "pinoy_process_entry \<lparr>raw_word = Some ''  '', raw_definition = Tag ''[document]'' [Text ''busy''],
      raw_source = []\<rparr> = Inr None
   \<and> pinoy_process_entry \<lparr>raw_word = None, raw_definition = Tag ''[document]'' [Text ''busy''],
      raw_source = []\<rparr> = Inr None
   \<and> find ''ent'' (Tag ''p'' [Text ''See above.'']) = None
   \<and> find_all ''def'' (Tag ''p'' [Text ''See above.'']) = []
   \<and> gcide_process_entry html5_xml charref_ascii 4300 (Tag ''p'' [Text ''See above.''])
        = Some \<lparr>word = None, definitions = []\<rparr>
   \<and> process_letter_step [ex_head]
        (gcide_process_entry html5_xml charref_ascii 4300 (Tag ''p'' [Text ''See above.''])) = [ex_head]"
proof -
  let ?p = "Tag ''p'' [Text ''See above.'']"
  let ?r = "\<lparr>raw_word = Some ''  '', raw_definition = Tag ''[document]'' [Text ''busy''],
             raw_source = []\<rparr>"
  let ?r' = "\<lparr>raw_word = None, raw_definition = Tag ''[document]'' [Text ''busy''],
             raw_source = []\<rparr>"
  have sp: "isspace ''  ''" by code_simp
  have f1: "find ''ent'' ?p = None" by code_simp
  have f2: "find_all ''def'' ?p = []" by code_simp
  have f3: "find ''ety'' ?p = None" by code_simp
  have f4: "find ''qex'' ?p = None" by code_simp
  note t = normalize_absent [of ?r ?p html5_xml charref_ascii 4300 "[ex_head]"]
  note t' = normalize_absent [of ?r' ?p html5_xml charref_ascii 4300 "[ex_head]"]
  have p1: "pinoy_process_entry ?r = Inr None"
    using t sp by simp
  have p1': "pinoy_process_entry ?r' = Inr None"
    using t' by simp
  have p2: "gcide_process_entry html5_xml charref_ascii 4300 ?p
        = Some \<lparr>word = None, definitions = []\<rparr>"
    using t f1 f2 f3 f4 by blast
  have p3: "process_letter_step [ex_head] (gcide_process_entry html5_xml charref_ascii 4300 ?p)
        = [ex_head]"
    using t f1 f2 by blast
  from p1 p1' p2 p3 f1 f2 show ?thesis by blast
qed

text \<open>
  C3 as stated fails for the GCIDE parser: a paragraph with no \<open>ent\<close> node and no \<open>def\<close>
  node is not normalised to \<open>None\<close>.
\<close>

theorem gcide_empty_paragraph_not_absent:
  "find ''ent'' (Tag ''p'' [Text ''See above.'']) = None
   \<and> find_all ''def'' (Tag ''p'' [Text ''See above.'']) = []
   \<and> gcide_process_entry html5_xml charref_ascii 4300 (Tag ''p'' [Text ''See above.''])
        = Some \<lparr>word = None, definitions = []\<rparr>
   \<and> gcide_process_entry html5_xml charref_ascii 4300 (Tag ''p'' [Text ''See above.'']) \<noteq> None"
  by code_simp

lemma scraped_pattern_refused:
  "pinoy_process_entry (ex_raw ''*'' ''star'') = Inr None
   \<and> pinoy_process_entry (ex_raw ''abc(def'' ''abc'') = Inr None
   \<and> pinoy_process_entry (ex_raw ''a)'' ''a) b'') = Inr None"
  by code_simp

section \<open>Properties of whitespace trimming\<close>

lemma dropWhile_idem: "dropWhile p (dropWhile p xs) = dropWhile p xs"
  by (induction xs) auto

lemma strip_chars_ends:
  assumes "strip_chars p s \<noteq> []"
  shows "\<not> p (hd (strip_chars p s)) \<and> \<not> p (last (strip_chars p s))"
proof -
  let ?l = "dropWhile p s"
  let ?d = "dropWhile p (rev ?l)"
  have r: "strip_chars p s = rev ?d"
    by (simp add: strip_chars_def lstrip_chars_def rstrip_chars_def)
  with assms have d: "?d \<noteq> []" by simp
  then have "\<not> p (hd ?d)" by (rule hd_dropWhile)
  then have lastr: "\<not> p (last (rev ?d))" using d by (simp add: last_rev)
  have l: "?l \<noteq> []"
    by (metis d dropWhile.simps(1) rev.simps(1))
  then have nh: "\<not> p (hd ?l)" by (rule hd_dropWhile)
  obtain zs where "rev ?l = zs @ ?d" by (metis takeWhile_dropWhile_id)
  then have "?l = rev ?d @ rev zs" by (metis rev_append rev_rev_ident)
  moreover have "rev ?d \<noteq> []" using d by simp
  ultimately have "hd (rev ?d) = hd ?l" by (metis hd_append2)
  with nh lastr show ?thesis unfolding r by simp
qed

lemma strip_chars_idem: "strip_chars p (strip_chars p s) = strip_chars p s"
proof (cases "strip_chars p s = []")
  case True
  have "strip_chars p [] = []"
    by (simp add: strip_chars_def lstrip_chars_def rstrip_chars_def)
  then show ?thesis by (simp only: True)
next
  case False
  let ?r = "strip_chars p s"
  from False have ends: "\<not> p (hd ?r)" "\<not> p (last ?r)"
    using strip_chars_ends [of p s] by simp_all
  from False ends(1) have left: "dropWhile p ?r = ?r" by (cases ?r) auto
  from False ends(2) have "\<not> p (hd (rev ?r))" by (simp add: hd_rev)
  with False have right: "dropWhile p (rev ?r) = rev ?r" by (cases "rev ?r") auto
  have "strip_chars p ?r = rev (dropWhile p (rev (dropWhile p ?r)))"
    by (simp add: strip_chars_def lstrip_chars_def rstrip_chars_def)
  also have "\<dots> = rev (dropWhile p (rev ?r))" by (simp only: left)
  also have "\<dots> = ?r" by (simp only: right rev_rev_ident)
  finally show ?thesis .
qed

lemma strip_idem: "strip (strip s) = strip s"
  by (simp add: strip_def strip_chars_idem)

lemma set_strip_chars: "set (strip_chars p s) \<subseteq> set s"
proof -
  have "set (strip_chars p s) \<subseteq> set (dropWhile p s)"
    unfolding strip_chars_def lstrip_chars_def rstrip_chars_def
    by (metis set_dropWhileD set_rev subsetI)
  also have "\<dots> \<subseteq> set s" by (auto dest: set_dropWhileD)
  finally show ?thesis .
qed

lemma get_text_strip_single: "get_text_strip (Tag name [Text s]) = strip s"
  by (simp add: get_text_strip_def)

section \<open>Properties of the scraped dictionary pipeline\<close>

lemma is_prefix_append: "is_prefix p (p @ r)"
  by (induction p) simp_all

lemma is_prefix_take: "is_prefix p s \<Longrightarrow> take (length p) s = p"
  by (induction p s rule: is_prefix.induct) simp_all

lemma quant_of_plain: "\<not> meta_char c \<Longrightarrow> quant_of c = None"
  by (auto simp: meta_char_def quant_of_def)

lemma atom_of_plain: "\<not> meta_char c \<Longrightarrow> atom_of c = Lit c"
  by (auto simp: meta_char_def atom_of_def)

lemma compile_word_plain:
  "list_all (\<lambda>c. \<not> meta_char c) w \<Longrightarrow> compile_word w = Some (map (\<lambda>c. (Lit c, Once)) w)"
proof (induction w)
  case Nil
  then show ?case by simp
next
  case (Cons c cs)
  then show ?case
    by (cases cs) (simp_all add: quant_of_plain atom_of_plain)
qed

lemma match_here_plain:
  "match_here (map (\<lambda>c. (Lit c, Once)) w) s
     = (if is_prefix w s then Some (drop (length w) s) else None)"
proof (induction w arbitrary: s)
  case Nil
  then show ?case by simp
next
  case (Cons c cs)
  then show ?case by (cases s) (simp_all add: atom_ok_def)
qed

lemma sub_prefix_plain:
  "sub_prefix (map (\<lambda>c. (Lit c, Once)) w) s = (if is_prefix w s then drop (length w) s else s)"
  by (simp add: sub_prefix_def match_here_plain)

lemma drop_Cons_ex: "\<exists>k. t = drop k cs \<Longrightarrow> \<exists>k. t = drop k (c # cs)"
  by (metis drop_Suc_Cons)

lemma match_here_suffix: "match_here rx s = Some t \<Longrightarrow> \<exists>k. t = drop k s"
proof (induction rx s arbitrary: t rule: match_here.induct)
  case (1 s)
  then have "t = drop 0 s" by simp
  then show ?case by blast
next
  case (2 a r s)
  show ?case
  proof (cases s)
    case Nil
    with "2.prems" show ?thesis by simp
  next
    case (Cons c cs)
    with "2.prems" have ok: "atom_ok a c" and m: "match_here r cs = Some t"
      by (auto split: if_splits)
    from "2.IH" [OF Cons ok m] show ?thesis unfolding Cons by (rule drop_Cons_ex)
  qed
next
  case (3 a r s)
  show ?case
  proof (cases s)
    case Nil
    with "3.prems" show ?thesis by simp
  next
    case (Cons c cs)
    with "3.prems" have ok: "atom_ok a c" and m: "match_here ((a, Star) # r) cs = Some t"
      by (auto split: if_splits)
    from "3.IH" [OF Cons ok m] show ?thesis unfolding Cons by (rule drop_Cons_ex)
  qed
next
  case (4 a r s)
  show ?case
  proof (cases s)
    case Nil
    with 4 show ?thesis by simp
  next
    case (Cons c cs)
    show ?thesis
    proof (cases "atom_ok a c")
      case True
      show ?thesis
      proof (cases "match_here r cs")
        case None
        with True Cons "4.prems" have "match_here r s = Some t" by simp
        with "4.IH"(3) [OF Cons True None] show ?thesis by blast
      next
        case (Some t')
        with True Cons "4.prems" have "match_here r cs = Some t" by simp
        with "4.IH"(2) [OF Cons True] show ?thesis unfolding Cons by (blast intro: drop_Cons_ex)
      qed
    next
      case False
      with Cons "4.prems" have "match_here r s = Some t" by simp
      with "4.IH"(4) [OF Cons False] show ?thesis by blast
    qed
  qed
next
  case (5 a r s)
  show ?case
  proof (cases s)
    case Nil
    with 5 show ?thesis by simp
  next
    case (Cons c cs)
    show ?thesis
    proof (cases "atom_ok a c")
      case True
      show ?thesis
      proof (cases "match_here ((a, Star) # r) cs")
        case None
        with True Cons "5.prems" have "match_here r s = Some t" by simp
        with "5.IH"(3) [OF Cons True None] show ?thesis by blast
      next
        case (Some t')
        with True Cons "5.prems" have "match_here ((a, Star) # r) cs = Some t" by simp
        with "5.IH"(2) [OF Cons True] show ?thesis unfolding Cons by (blast intro: drop_Cons_ex)
      qed
    next
      case False
      with Cons "5.prems" have "match_here r s = Some t" by simp
      with "5.IH"(4) [OF Cons False] show ?thesis by blast
    qed
  qed
qed

lemma sub_prefix_suffix: "\<exists>k. sub_prefix rx s = drop k s"
proof (cases "match_here rx s")
  case None
  then have "sub_prefix rx s = drop 0 s" by (simp add: sub_prefix_def)
  then show ?thesis by blast
next
  case (Some t)
  then show ?thesis
    using match_here_suffix [OF Some] by (simp add: sub_prefix_def)
qed

lemma paren_depth_none: "CHR ''('' \<notin> set w \<Longrightarrow> CHR '')'' \<notin> set w \<Longrightarrow> paren_depth d w = Some d"
  by (induction w arbitrary: d) auto

lemma compile_word_no_paren:
  "compile_word w = Some rx \<Longrightarrow> CHR ''('' \<notin> set w \<and> CHR '')'' \<notin> set w"
proof (induction w arbitrary: rx rule: compile_word.induct)
  case 1
  then show ?case by simp
next
  case (2 c cs)
  from "2.prems" have c: "\<not> (meta_char c \<and> c \<noteq> CHR ''.'')" by (auto split: if_splits)
  then have cp: "c \<noteq> CHR ''('' \<and> c \<noteq> CHR '')''" by (auto simp: meta_char_def)
  show ?case
  proof (cases cs)
    case Nil
    with cp show ?thesis by auto
  next
    case (Cons q rest)
    show ?thesis
    proof (cases "quant_of q")
      case None
      with "2.prems" c Cons obtain rx' where "compile_word cs = Some rx'"
        by (auto split: if_splits)
      with "2.IH"(1) [OF c Cons None] cp show ?thesis by auto
    next
      case (Some qu)
      with "2.prems" c Cons obtain rx' where "compile_word rest = Some rx'"
        by (auto split: if_splits)
      with "2.IH"(2) [OF c Cons Some] have "CHR ''('' \<notin> set rest \<and> CHR '')'' \<notin> set rest" by auto
      moreover from Some have "q \<noteq> CHR ''('' \<and> q \<noteq> CHR '')''"
        by (auto simp: quant_of_def split: if_splits)
      ultimately show ?thesis using cp Cons by auto
    qed
  qed
qed

lemma compile_word_no_error: "compile_word w = Some rx \<Longrightarrow> \<not> pattern_error w"
proof -
  assume c: "compile_word w = Some rx"
  then have np: "CHR ''('' \<notin> set w \<and> CHR '')'' \<notin> set w" by (rule compile_word_no_paren)
  then have d: "paren_depth 0 w = Some 0" by (simp add: paren_depth_none)
  have "case w of [] \<Rightarrow> True | x # xs \<Rightarrow> quant_of x = None"
  proof (cases w)
    case Nil then show ?thesis by simp
  next
    case (Cons x xs)
    with c have "\<not> (meta_char x \<and> x \<noteq> CHR ''.'')" by (auto split: if_splits)
    then have "quant_of x = None" by (auto simp: quant_of_def meta_char_def)
    with Cons show ?thesis by simp
  qed
  with d show ?thesis by (auto simp: pattern_error_def split: list.splits)
qed

lemma nested_group_span:
  "nested_group taken s = Some g \<Longrightarrow> \<exists>rest. taken @ s = g @ '')'' @ rest"
proof (induction s arbitrary: taken)
  case Nil
  then show ?case by simp
next
  case (Cons c cs)
  show ?case
  proof (cases "taken \<noteq> [] \<and> c = CHR '')'' \<and> closes cs")
    case True
    with Cons.prems have g: "g = taken @ [c] @ takeWhile not_paren cs" by simp
    from True obtain r where "dropWhile not_paren cs = CHR '')'' # r"
      by (auto simp: closes_def split: list.splits)
    then have "cs = takeWhile not_paren cs @ '')'' @ r"
      by (metis append_Cons append_Nil takeWhile_dropWhile_id)
    then have "taken @ c # cs = g @ '')'' @ r" using g by simp
    then show ?thesis by blast
  next
    case False
    with Cons.prems have "nested_group (taken @ [c]) cs = Some g"
      by (auto split: if_splits)
    from Cons.IH [OF this] show ?thesis by simp
  qed
qed

lemma inflection_match_span:
  assumes "inflection_match t = Some g"
  shows "\<exists>rest. t = ''('' @ g @ '')'' @ rest"
proof -
  from assms obtain rest where t: "t = CHR ''('' # rest"
    by (cases t) (auto simp: inflection_match_def split: if_splits)
  let ?a = "takeWhile not_paren rest"
  have dr: "drop (length ?a) rest = dropWhile not_paren rest"
    by (simp add: dropWhile_eq_drop)
  have split: "rest = ?a @ dropWhile not_paren rest" by simp
  show ?thesis
  proof (cases "dropWhile not_paren rest")
    case Nil
    with assms t dr show ?thesis by (simp add: inflection_match_def Let_def)
  next
    case (Cons d r2)
    show ?thesis
    proof (cases "d = CHR '')''")
      case True
      with assms t dr Cons have "g = ?a" by (simp add: inflection_match_def Let_def)
      with split Cons True have "rest = g @ '')'' @ r2" by simp
      with t show ?thesis by simp
    next
      case False
      with assms t dr Cons obtain g' where n: "nested_group [] r2 = Some g'" and g: "g = ?a @ [d] @ g'"
        by (auto simp: inflection_match_def Let_def)
      from nested_group_span [OF n] obtain rest' where "r2 = g' @ '')'' @ rest'" by auto
      with split Cons g have "rest = g @ '')'' @ rest'" by simp
      with t show ?thesis by simp
    qed
  qed
qed

lemma pos_match_span:
  assumes "pos_match t = Some g"
  shows "g \<noteq> [] \<and> (\<exists>rest. t = g @ rest)"
proof -
  from assms have k: "pos_items t \<noteq> 0" and g: "g = take (pos_items t) t"
    by (auto simp: pos_match_def Let_def split: if_splits)
  have "t \<noteq> []"
  proof
    assume "t = []"
    then have "pos_items t = 0" by (simp add: pos_item_def)
    with k show False by simp
  qed
  with k g have "g \<noteq> []" by simp
  moreover have "t = g @ drop (pos_items t) t" using g by simp
  ultimately show ?thesis by blast
qed

lemma strip_of_Nil: "strip_of cs [] = []"
  by (simp add: strip_of_def strip_chars_def lstrip_chars_def rstrip_chars_def)

lemma split_definitions_described:
  "map description (filter (\<lambda>d. description d \<noteq> None) (split_definitions part infl src t))
     = map (\<lambda>c. Some (strip_of '' ;'' c)) (filter (\<lambda>c. strip_of '' ;'' c \<noteq> []) (re_split t))"
proof -
  have gen: "\<And>cs. map description (filter (\<lambda>d. description d \<noteq> None)
               (map (\<lambda>description.
                  \<lparr>description = keep_str (Some (strip_of '' ;'' description)),
                   pos = keep_str part, origin = None, synonyms = None, antonyms = None,
                   examples = None, inflections = keep_list infl, source_title = None,
                   source_link = keep_str (Some src)\<rparr>) (filter (\<lambda>c. c \<noteq> []) cs)))
          = map (\<lambda>c. Some (strip_of '' ;'' c)) (filter (\<lambda>c. strip_of '' ;'' c \<noteq> []) cs)"
  proof -
    fix cs show "?thesis cs"
      by (induction cs) (auto simp: keep_str_def strip_of_Nil)
  qed
  show ?thesis
  proof (cases "t = []")
    case True
    have "re_split [] = [[]]" by (simp add: re_split_def)
    with True show ?thesis by (simp add: split_definitions_def strip_of_Nil)
  next
    case False
    then show ?thesis using gen [of "re_split t"] by (simp add: split_definitions_def)
  qed
qed

lemma split_definitions_length:
  "length (split_definitions part infl src t) \<le> length (filter (\<lambda>c. c \<noteq> []) (re_split t))"
  by (simp add: split_definitions_def)

lemma ex_text_inflections:
  "extract_inflections ex_text = ([''tense'', ''form''], ''v. 1. to run 2. to flee'')"
  by code_simp

lemma ex_text_pos:
  "extract_pos ''v. 1. to run 2. to flee'' = (Some ''v.'', ''1. to run 2. to flee'')"
  by code_simp

lemma ex_text_split:
  "re_split ''1. to run 2. to flee'' = ['''', ''to run '', ''to flee'']"
  by code_simp

lemma ex_text_pos_first: "extract_pos ex_text = (None, ex_text)"
  by code_simp

lemma ex_text_split_first:
  "re_split ''v. 1. to run 2. to flee'' = [''v. '', ''to run '', ''to flee'']"
  by code_simp

lemma ex_text_inflections_first:
  "extract_inflections ''takbo: (tense, form) v. 1. to run 2. to flee''
     = ([], ''takbo: (tense, form) v. 1. to run 2. to flee'')"
  by code_simp

lemma ex_text_lstrip: "lstrip_of '' .,;:!?'' ex_text = ex_text"
  by code_simp

lemma ex_text_senses:
  "split_definitions (Some ''v.'') [''tense'', ''form''] src ''1. to run 2. to flee''
     = [ex_sense ''to run'' (keep_str (Some src)), ex_sense ''to flee'' (keep_str (Some src))]"
proof -
  have a: "strip_of '' ;'' ''to run '' = ''to run''" by code_simp
  have b: "strip_of '' ;'' ''to flee'' = ''to flee''" by code_simp
  have c: "keep_str (Some ''v.'') = Some ''v.''" by code_simp
  have d: "keep_list [''tense'', ''form''] = Some [''tense'', ''form'']" by code_simp
  have e: "keep_str (Some ''to run'') = Some ''to run''" by code_simp
  have f: "keep_str (Some ''to flee'') = Some ''to flee''" by code_simp
  show ?thesis
    by (simp add: split_definitions_def ex_text_split a b c d e f ex_sense_def)
qed

lemma ex_text_plain_word:
  assumes "list_all (\<lambda>c. \<not> meta_char c) w"
  shows "sub_prefix (map (\<lambda>c. (Lit c, Once)) w) ex_text = ex_text"
proof (cases w)
  case Nil
  then show ?thesis by (simp add: sub_prefix_def)
next
  case (Cons c cs)
  with assms have "c \<noteq> CHR ''(''" by (auto simp: meta_char_def)
  then have np: "\<not> is_prefix (c # cs) ex_text" by (simp add: ex_text_def)
  show ?thesis unfolding Cons by (simp only: sub_prefix_plain np if_False)
qed

lemma ex_text_run:
  "pinoy_process_entry (ex_raw ''takbo'' ''(tense, form) v. 1. to run 2. to flee'')
     = Inr (Some \<lparr>word = Some ''takbo'',
                  definitions = [ex_sense ''to run'' None, ex_sense ''to flee'' None]\<rparr>)"
  by code_simp

lemma ex_text_run_prefixed:
  "pinoy_process_entry (ex_raw ''takbo'' ''takbo: (tense, form) v. 1. to run 2. to flee'')
     = Inr (Some \<lparr>word = Some ''takbo'',
                  definitions = [ex_sense ''to run'' None, ex_sense ''to flee'' None]\<rparr>)"
  by code_simp

text \<open>
  C5. \<open>process_entry\<close> runs four stages in a fixed order, each on the text the stage before
  left. Stage 1 strips the word from the head of the definition text (for a word without
  special characters: the word itself when the text begins with it, nothing otherwise) and
  then leading punctuation. Stage 2 takes the inflections from a parenthesised group that
  begins the text it receives and drops a leading span. Stage 3 takes the parts of speech from
  a match that begins the text it receives and drops a leading span. Stage 4 splits what is
  left into the senses. On the definition text \<open>(tense, form) v. 1. to run 2. to flee\<close>
  the result has the inflections \<open>tense, form\<close>, the part of speech \<open>v.\<close> and the
  descriptions \<open>to run\<close> and \<open>to flee\<close>, in that order, and the same when the text is
  prefixed with the word. The order matters: before the word is stripped the inflection
  extractor finds nothing, before the inflections are taken the part-of-speech extractor
  finds nothing, and splitting before the parts of speech are taken gives three pieces.
\<close>

theorem pipeline_stages:
  assumes "raw_word r = Some w0" and "w0 \<noteq> []" and "\<not> isspace w0"
    and "compile_word (clean_word w0) = Some rx"
    and "t0 = get_text_strip (raw_definition r)"
    and "t1 = lstrip_of '' .,;:!?'' (sub_prefix rx t0)"
    and "extract_inflections t1 = (infl, t2)"
    and "extract_pos t2 = (part, t3)"
  shows "pinoy_process_entry r
           = Inr (Some \<lparr>word = Some (clean_word w0),
                        definitions = split_definitions part infl (raw_source r) t3\<rparr>)
    \<and> (\<exists>k. sub_prefix rx t0 = drop k t0)
    \<and> (list_all (\<lambda>c. \<not> meta_char c) (clean_word w0) \<longrightarrow>
         sub_prefix rx t0 = (if is_prefix (clean_word w0) t0
                             then drop (length (clean_word w0)) t0 else t0))
    \<and> t1 = dropWhile (\<lambda>c. c \<in> set '' .,;:!?'') (sub_prefix rx t0)
    \<and> (inflection_match t1 = None \<longrightarrow> infl = [] \<and> t2 = t1)
    \<and> (\<forall>g. inflection_match t1 = Some g \<longrightarrow>
           is_prefix (''('' @ g @ '')'') t1
         \<and> infl = map strip (split_on CHR '','' (strip (replace ''.'' '','' g)))
         \<and> t2 = strip (drop (length (strip (replace ''.'' '','' g)) + 2) t1))
    \<and> (pos_match t2 = None \<longrightarrow> part = None \<and> t3 = t2)
    \<and> (\<forall>g. pos_match t2 = Some g \<longrightarrow>
           g \<noteq> [] \<and> is_prefix g t2
         \<and> part = Some (strip g)
         \<and> t3 = strip (drop (length (strip g)) t2))
    \<and> map description (filter (\<lambda>d. description d \<noteq> None)
                          (split_definitions part infl (raw_source r) t3))
        = map (\<lambda>c. Some (strip_of '' ;'' c))
            (filter (\<lambda>c. strip_of '' ;'' c \<noteq> []) (re_split t3))
    \<and> (t0 = ex_text \<and> list_all (\<lambda>c. \<not> meta_char c) (clean_word w0) \<longrightarrow>
           infl = [''tense'', ''form''] \<and> part = Some ''v.''
         \<and> pinoy_process_entry r
             = Inr (Some \<lparr>word = Some (clean_word w0),
                          definitions =
                            [ex_sense ''to run'' (keep_str (Some (raw_source r))),
                             ex_sense ''to flee'' (keep_str (Some (raw_source r)))]\<rparr>))
    \<and> pinoy_process_entry (ex_raw ''takbo'' ''(tense, form) v. 1. to run 2. to flee'')
         = Inr (Some \<lparr>word = Some ''takbo'',
                      definitions = [ex_sense ''to run'' None, ex_sense ''to flee'' None]\<rparr>)
    \<and> pinoy_process_entry (ex_raw ''takbo'' ''takbo: (tense, form) v. 1. to run 2. to flee'')
         = Inr (Some \<lparr>word = Some ''takbo'',
                      definitions = [ex_sense ''to run'' None, ex_sense ''to flee'' None]\<rparr>)
    \<and> extract_inflections ''takbo: (tense, form) v. 1. to run 2. to flee''
         = ([], ''takbo: (tense, form) v. 1. to run 2. to flee'')
    \<and> extract_pos ex_text = (None, ex_text)
    \<and> re_split ''v. 1. to run 2. to flee'' = [''v. '', ''to run '', ''to flee'']"
proof -
  have noerr: "\<not> pattern_error (clean_word w0)"
    using assms(4) by (rule compile_word_no_error)
  have run: "pinoy_process_entry r
           = Inr (Some \<lparr>word = Some (clean_word w0),
                        definitions = split_definitions part infl (raw_source r) t3\<rparr>)"
    using assms noerr by (simp add: pinoy_process_entry_def Let_def)
  have s1: "\<exists>k. sub_prefix rx t0 = drop k t0"
    by (rule sub_prefix_suffix)
  have s1p: "list_all (\<lambda>c. \<not> meta_char c) (clean_word w0) \<longrightarrow>
         sub_prefix rx t0 = (if is_prefix (clean_word w0) t0
                             then drop (length (clean_word w0)) t0 else t0)"
  proof
    assume p: "list_all (\<lambda>c. \<not> meta_char c) (clean_word w0)"
    with assms(4) have "rx = map (\<lambda>c. (Lit c, Once)) (clean_word w0)"
      by (simp add: compile_word_plain)
    then show "sub_prefix rx t0 = (if is_prefix (clean_word w0) t0
                             then drop (length (clean_word w0)) t0 else t0)"
      by (simp only: sub_prefix_plain)
  qed
  have s1l: "t1 = dropWhile (\<lambda>c. c \<in> set '' .,;:!?'') (sub_prefix rx t0)"
    using assms(6) by (simp add: lstrip_of_def lstrip_chars_def)
  have s2n: "inflection_match t1 = None \<longrightarrow> infl = [] \<and> t2 = t1"
    using assms(7) by (auto simp: extract_inflections_def)
  have s2s: "\<forall>g. inflection_match t1 = Some g \<longrightarrow>
           is_prefix (''('' @ g @ '')'') t1
         \<and> infl = map strip (split_on CHR '','' (strip (replace ''.'' '','' g)))
         \<and> t2 = strip (drop (length (strip (replace ''.'' '','' g)) + 2) t1)"
  proof (intro allI impI)
    fix g assume m: "inflection_match t1 = Some g"
    from inflection_match_span [OF m] obtain rest where "t1 = (''('' @ g @ '')'') @ rest"
      by auto
    then have p: "is_prefix (''('' @ g @ '')'') t1" by (metis is_prefix_append)
    from m assms(7) have "infl = map strip (split_on CHR '','' (strip (replace ''.'' '','' g)))
         \<and> t2 = strip (drop (length (strip (replace ''.'' '','' g)) + 2) t1)"
      by (auto simp: extract_inflections_def Let_def)
    with p show "is_prefix (''('' @ g @ '')'') t1
         \<and> infl = map strip (split_on CHR '','' (strip (replace ''.'' '','' g)))
         \<and> t2 = strip (drop (length (strip (replace ''.'' '','' g)) + 2) t1)" by blast
  qed
  have s3n: "pos_match t2 = None \<longrightarrow> part = None \<and> t3 = t2"
    using assms(8) by (auto simp: extract_pos_def)
  have s3s: "\<forall>g. pos_match t2 = Some g \<longrightarrow>
           g \<noteq> [] \<and> is_prefix g t2
         \<and> part = Some (strip g)
         \<and> t3 = strip (drop (length (strip g)) t2)"
  proof (intro allI impI)
    fix g assume m: "pos_match t2 = Some g"
    from pos_match_span [OF m] obtain rest where ne: "g \<noteq> []" and "t2 = g @ rest" by auto
    then have p: "is_prefix g t2" by (metis is_prefix_append)
    from m assms(8) have "part = Some (strip g) \<and> t3 = strip (drop (length (strip g)) t2)"
      by (auto simp: extract_pos_def Let_def)
    with p ne show "g \<noteq> [] \<and> is_prefix g t2
         \<and> part = Some (strip g)
         \<and> t3 = strip (drop (length (strip g)) t2)" by blast
  qed
  have s4: "map description (filter (\<lambda>d. description d \<noteq> None)
                          (split_definitions part infl (raw_source r) t3))
        = map (\<lambda>c. Some (strip_of '' ;'' c))
            (filter (\<lambda>c. strip_of '' ;'' c \<noteq> []) (re_split t3))"
    by (rule split_definitions_described)
  have ex: "t0 = ex_text \<and> list_all (\<lambda>c. \<not> meta_char c) (clean_word w0) \<longrightarrow>
           infl = [''tense'', ''form''] \<and> part = Some ''v.''
         \<and> pinoy_process_entry r
             = Inr (Some \<lparr>word = Some (clean_word w0),
                          definitions =
                            [ex_sense ''to run'' (keep_str (Some (raw_source r))),
                             ex_sense ''to flee'' (keep_str (Some (raw_source r)))]\<rparr>)"
  proof
    assume h: "t0 = ex_text \<and> list_all (\<lambda>c. \<not> meta_char c) (clean_word w0)"
    with assms(4) have "rx = map (\<lambda>c. (Lit c, Once)) (clean_word w0)"
      by (simp add: compile_word_plain)
    with h have "sub_prefix rx t0 = ex_text" by (simp add: ex_text_plain_word)
    with assms(6) have t1: "t1 = ex_text" by (simp add: ex_text_lstrip)
    with assms(7) have i: "infl = [''tense'', ''form'']" and t2: "t2 = ''v. 1. to run 2. to flee''"
      by (simp_all add: ex_text_inflections)
    with assms(8) have p: "part = Some ''v.''" and t3: "t3 = ''1. to run 2. to flee''"
      by (simp_all add: ex_text_pos)
    from run i p t3 have "pinoy_process_entry r
             = Inr (Some \<lparr>word = Some (clean_word w0),
                          definitions =
                            [ex_sense ''to run'' (keep_str (Some (raw_source r))),
                             ex_sense ''to flee'' (keep_str (Some (raw_source r)))]\<rparr>)"
      by (simp add: ex_text_senses)
    with i p show "infl = [''tense'', ''form''] \<and> part = Some ''v.''
         \<and> pinoy_process_entry r
             = Inr (Some \<lparr>word = Some (clean_word w0),
                          definitions =
                            [ex_sense ''to run'' (keep_str (Some (raw_source r))),
                             ex_sense ''to flee'' (keep_str (Some (raw_source r)))]\<rparr>)" by blast
  qed
  show ?thesis
    by (intro conjI run s1 s1p s1l s2n s2s s3n s3s s4 ex ex_text_run ex_text_run_prefixed
        ex_text_inflections_first ex_text_pos_first ex_text_split_first)
qed

theorem pipeline_stages_witness:
  "pinoy_process_entry (ex_raw ''takbo'' ''takbo: (tense, form) v. 1. to run 2. to flee'')
     = Inr (Some \<lparr>word = Some ''takbo'',
                  definitions = split_definitions (Some ''v.'') [''tense'', ''form''] []
                                  ''1. to run 2. to flee''\<rparr>)
   \<and> sub_prefix [(Lit CHR ''t'', Once), (Lit CHR ''a'', Once), (Lit CHR ''k'', Once),
                  (Lit CHR ''b'', Once), (Lit CHR ''o'', Once)]
        ''takbo: (tense, form) v. 1. to run 2. to flee''
       = '': (tense, form) v. 1. to run 2. to flee''
   \<and> map description (split_definitions (Some ''v.'') [''tense'', ''form''] []
                         ''1. to run 2. to flee'')
       = [Some ''to run'', Some ''to flee'']"
proof -
  let ?T = "''takbo: (tense, form) v. 1. to run 2. to flee''"
  let ?r = "ex_raw ''takbo'' ?T"
  let ?rx = "[(Lit CHR ''t'', Once), (Lit CHR ''a'', Once), (Lit CHR ''k'', Once),
              (Lit CHR ''b'', Once), (Lit CHR ''o'', Once)]"
  have a: "raw_word ?r = Some ''takbo''" by (simp add: ex_raw_def)
  have b: "''takbo'' \<noteq> []" by simp
  have c: "\<not> isspace ''takbo''" by code_simp
  have cw: "clean_word ''takbo'' = ''takbo''" by code_simp
  have d: "compile_word (clean_word ''takbo'') = Some ?rx" by code_simp
  have e: "?T = get_text_strip (raw_definition ?r)" by code_simp
  have f: "ex_text = lstrip_of '' .,;:!?'' (sub_prefix ?rx ?T)" by code_simp
  have g: "extract_inflections ex_text = ([''tense'', ''form''], ''v. 1. to run 2. to flee'')"
    by (rule ex_text_inflections)
  have h: "extract_pos ''v. 1. to run 2. to flee'' = (Some ''v.'', ''1. to run 2. to flee'')"
    by (rule ex_text_pos)
  have src: "raw_source ?r = []" by (simp add: ex_raw_def)
  have sp: "sub_prefix ?rx ?T = '': (tense, form) v. 1. to run 2. to flee''" by code_simp
  have ds: "map description (split_definitions (Some ''v.'') [''tense'', ''form''] []
                         ''1. to run 2. to flee'') = [Some ''to run'', Some ''to flee'']"
    by code_simp
  from pipeline_stages [OF a b c d e f g h]
  have "pinoy_process_entry ?r
           = Inr (Some \<lparr>word = Some (clean_word ''takbo''),
                        definitions = split_definitions (Some ''v.'') [''tense'', ''form'']
                                        (raw_source ?r) ''1. to run 2. to flee''\<rparr>)"
    by blast
  then have "pinoy_process_entry ?r
           = Inr (Some \<lparr>word = Some ''takbo'',
                        definitions = split_definitions (Some ''v.'') [''tense'', ''form'']
                                        [] ''1. to run 2. to flee''\<rparr>)"
    by (simp only: cw src)
  with sp ds show ?thesis by blast
qed

lemma keep_str_nonempty: "keep_str v \<noteq> Some []"
  by (simp add: keep_str_def split: option.splits)

lemma split_definitions_description:
  assumes "d \<in> set (split_definitions part infl src t)"
  shows "description d \<noteq> Some []
         \<and> (\<forall>x. description d = Some x \<longrightarrow> hd x \<notin> set '' ;'' \<and> last x \<notin> set '' ;'')"
proof -
  from assms obtain piece where d: "description d = keep_str (Some (strip_of '' ;'' piece))"
    by (auto simp: split_definitions_def split: if_splits)
  have "\<And>x. description d = Some x \<Longrightarrow> hd x \<notin> set '' ;'' \<and> last x \<notin> set '' ;''"
  proof -
    fix x assume "description d = Some x"
    with d have x: "x = strip_chars (\<lambda>c. c \<in> set '' ;'') piece" and "x \<noteq> []"
      by (auto simp: keep_str_def strip_of_def split: if_splits)
    then show "hd x \<notin> set '' ;'' \<and> last x \<notin> set '' ;''"
      using strip_chars_ends [of "\<lambda>c. c \<in> set '' ;''" piece] by simp
  qed
  with d show ?thesis by (simp add: keep_str_nonempty)
qed

lemma those_map_Some:
  "those (map f xs) = Some ys \<Longrightarrow> map f xs = map Some ys"
proof (induction xs arbitrary: ys)
  case Nil
  then show ?case by simp
next
  case (Cons x xs)
  then show ?case by (auto split: option.splits)
qed

lemma gcide_definitions:
  assumes "gcide_process_entry html5 charref m p = Some e"
  shows "map description (definitions e)
           = map (\<lambda>d. keep_str (unescape html5 charref m (get_text_strip d))) (find_all ''def'' p)"
proof -
  let ?us = "map (\<lambda>d. unescape html5 charref m (get_text_strip d)) (find_all ''def'' p)"
  from assms obtain ds where ds: "those ?us = Some ds"
    and e: "map description (definitions e) = map (\<lambda>x. keep_str (Some x)) ds"
    by (auto simp: gcide_process_entry_def Let_def comp_def split: option.splits)
  from those_map_Some [OF ds] have "?us = map Some ds" .
  then have "map keep_str ?us = map keep_str (map Some ds)" by simp
  then show ?thesis using e by (simp add: comp_def)
qed

text \<open>
  C6, as the code has it. A definition carries a description only when the description is not
  empty. In the scraped dictionary parser a candidate sense that is empty is dropped (there is at
  most one definition for each candidate that is not empty); the definitions that carry a
  description are, in order, those of the candidates that are not empty once spaces and
  semicolons are trimmed from their ends, and the description is the trimmed text. The
  GCIDE parser drops nothing: it builds one definition for every \<open>def\<close> node, without a
  description when the node's text is empty.
\<close>

theorem description_present_nonempty:
  "(gcide_process_entry html5 charref m p = Some e \<longrightarrow>
       length (definitions e) = length (find_all ''def'' p)
     \<and> map description (definitions e)
         = map (\<lambda>d. keep_str (unescape html5 charref m (get_text_strip d))) (find_all ''def'' p)
     \<and> (\<forall>d\<in>set (definitions e). description d \<noteq> Some []))
   \<and> length (split_definitions part infl src t)
       \<le> length (filter (\<lambda>c. c \<noteq> []) (re_split t))
   \<and> map description (filter (\<lambda>d. description d \<noteq> None) (split_definitions part infl src t))
       = map (\<lambda>c. Some (strip_of '' ;'' c)) (filter (\<lambda>c. strip_of '' ;'' c \<noteq> []) (re_split t))
   \<and> (\<forall>d\<in>set (split_definitions part infl src t). description d \<noteq> Some []
          \<and> (\<forall>x. description d = Some x \<longrightarrow> hd x \<notin> set '' ;'' \<and> last x \<notin> set '' ;''))
   \<and> (pinoy_process_entry r = Inr (Some e') \<longrightarrow>
         (\<exists>part infl t. definitions e' = split_definitions part infl (raw_source r) t))"
proof -
  have g: "gcide_process_entry html5 charref m p = Some e \<longrightarrow>
       length (definitions e) = length (find_all ''def'' p)
     \<and> map description (definitions e)
         = map (\<lambda>d. keep_str (unescape html5 charref m (get_text_strip d))) (find_all ''def'' p)
     \<and> (\<forall>d\<in>set (definitions e). description d \<noteq> Some [])"
  proof
    assume h: "gcide_process_entry html5 charref m p = Some e"
    have m: "map description (definitions e)
         = map (\<lambda>d. keep_str (unescape html5 charref m (get_text_strip d))) (find_all ''def'' p)"
      using h by (rule gcide_definitions)
    then have l: "length (definitions e) = length (find_all ''def'' p)"
      by (metis length_map)
    have n: "\<forall>d\<in>set (definitions e). description d \<noteq> Some []"
    proof
      fix d assume "d \<in> set (definitions e)"
      then have "description d \<in> set (map description (definitions e))" by simp
      with m show "description d \<noteq> Some []" by (auto dest: sym simp: keep_str_nonempty)
    qed
    from l m n show "length (definitions e) = length (find_all ''def'' p)
     \<and> map description (definitions e)
         = map (\<lambda>d. keep_str (unescape html5 charref m (get_text_strip d))) (find_all ''def'' p)
     \<and> (\<forall>d\<in>set (definitions e). description d \<noteq> Some [])" by blast
  qed
  have s1: "length (split_definitions part infl src t)
       \<le> length (filter (\<lambda>c. c \<noteq> []) (re_split t))"
    by (rule split_definitions_length)
  have s2: "map description (filter (\<lambda>d. description d \<noteq> None) (split_definitions part infl src t))
       = map (\<lambda>c. Some (strip_of '' ;'' c)) (filter (\<lambda>c. strip_of '' ;'' c \<noteq> []) (re_split t))"
    by (rule split_definitions_described)
  have s3: "\<forall>d\<in>set (split_definitions part infl src t). description d \<noteq> Some []
          \<and> (\<forall>x. description d = Some x \<longrightarrow> hd x \<notin> set '' ;'' \<and> last x \<notin> set '' ;'')"
    using split_definitions_description by blast
  have s4: "pinoy_process_entry r = Inr (Some e') \<longrightarrow>
         (\<exists>part infl t. definitions e' = split_definitions part infl (raw_source r) t)"
  proof
    assume "pinoy_process_entry r = Inr (Some e')"
    then obtain part infl t where "definitions e' = split_definitions part infl (raw_source r) t"
      by (auto simp: pinoy_process_entry_def Let_def split: option.splits prod.splits if_splits)
    then show "\<exists>part infl t. definitions e' = split_definitions part infl (raw_source r) t"
      by blast
  qed
  show ?thesis by (intro conjI g s1 s2 s3 s4)
qed

theorem description_present_nonempty_witness:
  "gcide_process_entry html5_xml charref_ascii 4300
      (Tag ''p'' [Tag ''ent'' [Text ''cat''], Tag ''def'' [Text ''a small animal''], Tag ''def'' []])
     = Some \<lparr>word = Some ''cat'', definitions = [ex_bare (Some ''a small animal''), ex_bare None]\<rparr>
   \<and> length (find_all ''def''
        (Tag ''p'' [Tag ''ent'' [Text ''cat''], Tag ''def'' [Text ''a small animal''], Tag ''def'' []])) = 2
   \<and> description (ex_bare (Some ''a small animal'')) \<noteq> Some []
   \<and> re_split ''1. to run 2. 3.to flee'' = ['''', ''to run '', '''', ''to flee'']
   \<and> map description (split_definitions None [] [] ''1. to run 2. 3.to flee'')
       = [Some ''to run'', Some ''to flee'']
   \<and> length (split_definitions None [] [] ''1. to run 2. 3.to flee'') \<le> 2"
proof -
  let ?p = "Tag ''p'' [Tag ''ent'' [Text ''cat''], Tag ''def'' [Text ''a small animal''], Tag ''def'' []]"
  let ?e = "\<lparr>word = Some ''cat'', definitions = [ex_bare (Some ''a small animal''), ex_bare None]\<rparr>"
  let ?t = "''1. to run 2. 3.to flee''"
  have g: "gcide_process_entry html5_xml charref_ascii 4300 ?p = Some ?e" by code_simp
  have rs: "re_split ?t = ['''', ''to run '', '''', ''to flee'']" by code_simp
  have sd: "map description (split_definitions None [] [] ?t) = [Some ''to run'', Some ''to flee'']"
    by code_simp
  note t = description_present_nonempty [of html5_xml charref_ascii 4300 ?p ?e None "[]" "[]" ?t]
  from t g have len: "length (definitions ?e) = length (find_all ''def'' ?p)"
    and d1: "\<forall>d\<in>set (definitions ?e). description d \<noteq> Some []" by blast+
  from t have le: "length (split_definitions None [] [] ?t)
      \<le> length (filter (\<lambda>c. c \<noteq> []) (re_split ?t))" by blast
  from len have l1: "length (find_all ''def'' ?p) = 2" by simp
  from d1 have n1: "description (ex_bare (Some ''a small animal'')) \<noteq> Some []" by simp
  from le have l2: "length (split_definitions None [] [] ?t) \<le> 2" by (simp only: rs) simp
  from g l1 n1 rs sd l2 show ?thesis by blast
qed

text \<open>
  C6 as stated fails: a \<open>def\<close> node with no text gives a definition without a description,
  and the definition stays in the sequence.
\<close>

theorem gcide_definition_without_description:
  "gcide_process_entry html5_xml charref_ascii 4300
      (Tag ''p'' [Tag ''ent'' [Text ''a''], Tag ''def'' []])
     = Some \<lparr>word = Some ''a'', definitions = [ex_bare None]\<rparr>"
  by code_simp

lemma scraped_definition_without_description:
  "pinoy_process_entry (ex_raw ''a'' ''1. ;'')
     = Inr (Some \<lparr>word = Some ''a'', definitions = [ex_bare None]\<rparr>)"
  by code_simp

lemma word_prefix_abala:
  "pinoy_process_entry (ex_raw ''abala'' ''abala busy; occupied'')
     = Inr (Some \<lparr>word = Some ''abala'', definitions = [ex_bare (Some ''busy; occupied'')]\<rparr>)"
  by code_simp

text \<open>
  C7. The word is used as a pattern, not as a literal string. For the word \<open>a*\<close> and the
  definition text \<open>a* star\<close>, which begins with the word, the pattern matches the \<open>a\<close>
  alone: the description is \<open>* star\<close> and not \<open>star\<close>.
\<close>

theorem word_prefix_pattern_not_literal:
  "clean_word ''a*'' = ''a*''
   \<and> compile_word ''a*'' = Some [(Lit CHR ''a'', Star)]
   \<and> sub_prefix [(Lit CHR ''a'', Star)] ''a* star'' = ''* star''
   \<and> pinoy_process_entry (ex_raw ''a*'' ''a* star'')
     = Inr (Some \<lparr>word = Some ''a*'', definitions = [ex_bare (Some ''* star'')]\<rparr>)"
  by code_simp

text \<open>
  C9. The text that the inflection extractor drops is as long as the trimmed content of the
  group and two parentheses, not as long as the match. For the definition text
  \<open>( tense ) v. to run\<close> the match is \<open>( tense )\<close>, nine characters, and seven are
  dropped: the text left is \<open>) v. to run\<close>, which does not start after the closing
  parenthesis, and the part of speech is not found.
\<close>

theorem inflection_span_short:
  "inflection_match ''( tense ) v. to run'' = Some '' tense ''
   \<and> extract_inflections ''( tense ) v. to run'' = ([''tense''], '') v. to run'')
   \<and> pinoy_process_entry (ex_raw ''takbo'' ''( tense ) v. to run'')
     = Inr (Some \<lparr>word = Some ''takbo'',
                  definitions = [\<lparr>description = Some '') v. to run'', pos = None, origin = None,
                    synonyms = None, antonyms = None, examples = None,
                    inflections = Some [''tense''],
                    source_title = None, source_link = None\<rparr>]\<rparr>)"
  by code_simp

section \<open>Properties of the text clean-up\<close>

lemma unescape_plain: "CHR ''&'' \<notin> set s \<Longrightarrow> unescape html5 charref m s = Some s"
  by (simp add: unescape_def)

text \<open>
  C8, as the code has it. The clean-up is idempotent wherever its first pass leaves a text
  with no \<open>&\<close> and no whitespace at its ends: a second pass then changes nothing. This holds
  in particular for every string that holds no \<open>&\<close>, where the clean-up is the trimming of
  whitespace.
\<close>

theorem unescape_trim_idempotent:
  "(unescape_trim html5 charref m s = Some u \<and> CHR ''&'' \<notin> set u \<and> strip u = u
      \<longrightarrow> unescape_trim html5 charref m u = Some u)
   \<and> (CHR ''&'' \<notin> set s
      \<longrightarrow> unescape_trim html5 charref m s = Some (strip s)
        \<and> unescape_trim html5 charref m (strip s) = Some (strip s))
   \<and> unescape html5 charref m (get_text_strip (Tag name [Text s])) = unescape_trim html5 charref m s"
proof -
  have a: "unescape_trim html5 charref m s = Some u \<and> CHR ''&'' \<notin> set u \<and> strip u = u
      \<longrightarrow> unescape_trim html5 charref m u = Some u"
    by (simp add: unescape_trim_def unescape_plain)
  have b: "CHR ''&'' \<notin> set s
      \<longrightarrow> unescape_trim html5 charref m s = Some (strip s)
        \<and> unescape_trim html5 charref m (strip s) = Some (strip s)"
  proof
    assume h: "CHR ''&'' \<notin> set s"
    then have plain: "CHR ''&'' \<notin> set (strip s)"
      using set_strip_chars [of is_space s] by (auto simp: strip_def)
    then show "unescape_trim html5 charref m s = Some (strip s)
        \<and> unescape_trim html5 charref m (strip s) = Some (strip s)"
      by (simp add: unescape_trim_def unescape_plain strip_idem)
  qed
  have c: "unescape html5 charref m (get_text_strip (Tag name [Text s]))
             = unescape_trim html5 charref m s"
    by (simp add: get_text_strip_single unescape_trim_def)
  show ?thesis by (intro conjI a b c)
qed

theorem unescape_trim_idempotent_witness:
  "unescape_trim html5_xml charref_ascii 4300 ''  a &lt; b '' = Some ''a < b''
   \<and> CHR ''&'' \<notin> set ''a < b'' \<and> strip ''a < b'' = ''a < b''
   \<and> unescape_trim html5_xml charref_ascii 4300 ''a < b'' = Some ''a < b''"
proof -
  have a: "unescape_trim html5_xml charref_ascii 4300 ''  a &lt; b '' = Some ''a < b''"
    by code_simp
  have b: "CHR ''&'' \<notin> set ''a < b''" by simp
  have c: "strip ''a < b'' = ''a < b''" by code_simp
  note t = unescape_trim_idempotent
      [of html5_xml charref_ascii 4300 "''  a &lt; b ''" "''a < b''" "''def''"]
  from t a b c have "unescape_trim html5_xml charref_ascii 4300 ''a < b'' = Some ''a < b''"
    by blast
  with a b c show ?thesis by blast
qed

text \<open>
  C8 as stated fails: \<open>html.unescape\<close> decodes one level of references, so a second pass
  can decode again.
\<close>

theorem unescape_trim_not_idempotent:
  "unescape_trim html5_xml charref_ascii 4300 ''&amp;amp;'' = Some ''&amp;''
   \<and> unescape_trim html5_xml charref_ascii 4300 ''&amp;'' = Some ''&''
   \<and> Option.bind (unescape_trim html5_xml charref_ascii 4300 ''&amp;amp;'')
         (unescape_trim html5_xml charref_ascii 4300)
       \<noteq> unescape_trim html5_xml charref_ascii 4300 ''&amp;amp;''"
  by code_simp

lemma unescape_digit_limit:
  "unescape html5_xml charref_ascii 4 ''&#65;'' = Some ''A''
   \<and> over_digit_limit 640 641
   \<and> \<not> over_digit_limit 640 640
   \<and> \<not> over_digit_limit 0 5000"
  by code_simp

section \<open>Properties of the export order\<close>

text \<open>
  C10. \<open>export_parsed_data\<close> of the GCIDE parser writes the entries sorted by the
  lower-cased word, ascending: for a non-empty collection in which every entry has a word, the
  written sequence is a permutation of the collection, its lower-cased words ascend, and
  entries with the same lower-cased word keep their order. The words \<open>Zebra, apple, Bee\<close>
  are written in the order \<open>apple, Bee, Zebra\<close>.
\<close>

theorem export_sorted:
  assumes "parsed_data \<noteq> []" and "\<forall>e\<in>set parsed_data. word e \<noteq> None"
  shows "\<exists>out. export_parsed_data parsed_data = Inr (Some out)
           \<and> mset out = mset parsed_data
           \<and> sorted (map sort_word out)
           \<and> (\<forall>k. filter (\<lambda>e. sort_word e = k) out = filter (\<lambda>e. sort_word e = k) parsed_data)"
proof -
  have "\<not> list_ex (\<lambda>e. word e = None) parsed_data"
    using assms(2) by (simp add: list_ex_iff)
  then have "export_parsed_data parsed_data = Inr (Some (sort_key sort_word parsed_data))"
    using assms(1) by (simp add: export_parsed_data_def)
  then show ?thesis
    by (simp add: sort_key_stable)
qed

theorem export_sorted_witness:
  "export_parsed_data [ex_entry ''Zebra'', ex_entry ''apple'', ex_entry ''Bee'']
     = Inr (Some [ex_entry ''apple'', ex_entry ''Bee'', ex_entry ''Zebra''])"
proof -
  let ?xs = "[ex_entry ''Zebra'', ex_entry ''apple'', ex_entry ''Bee'']"
  have a: "?xs \<noteq> []" by simp
  have b: "\<forall>e\<in>set ?xs. word e \<noteq> None" by (simp add: ex_entry_def)
  from export_sorted [OF a b] obtain out where
    o: "export_parsed_data ?xs = Inr (Some out)"
    and s: "sorted (map sort_word out)" by blast
  have "export_parsed_data ?xs = Inr (Some [ex_entry ''apple'', ex_entry ''Bee'', ex_entry ''Zebra''])"
    by code_simp
  with o show ?thesis by simp
qed

end
